theory Spec2Isabelle
  imports Main "HOL-Library.Word"
begin

section \<open>Host side of the core device protocol (artiq/coredevice/comm\_generic.py)\<close>

text \<open>
  A shallow embedding of \<^verbatim>\<open>CommGeneric\<close>: the frame reader, the frame writer, the
  RPC value decoder and the serve loop. Python exceptions are values of the type
  \<open>error\<close>; every operation takes the object state and returns its result together
  with the state it leaves behind, also when it raises, since a raise keeps the fields
  that were assigned before it.
\<close>

subsection \<open>Message kinds\<close>

datatype h2d =
    LOG_REQUEST | IDENT_REQUEST | SWITCH_CLOCK | LOAD_LIBRARY | RUN_KERNEL
  | RPC_REPLY | RPC_EXCEPTION
  | FLASH_READ_REQUEST | FLASH_WRITE_REQUEST | FLASH_ERASE_REQUEST | FLASH_REMOVE_REQUEST

datatype d2h =
    LOG_REPLY | IDENT_REPLY | CLOCK_SWITCH_COMPLETED | CLOCK_SWITCH_FAILED
  | LOAD_COMPLETED | LOAD_FAILED
  | KERNEL_FINISHED | KERNEL_STARTUP_FAILED | KERNEL_EXCEPTION
  | RPC_REQUEST
  | FLASH_READ_REPLY | FLASH_OK_REPLY | FLASH_ERROR_REPLY

text \<open>The \<^verbatim>\<open>.value\<close> of a member of \<^verbatim>\<open>_H2DMsgType\<close>.\<close>

fun h2d_value :: "h2d \<Rightarrow> int" where
  "h2d_value LOG_REQUEST = 1"
| "h2d_value IDENT_REQUEST = 2"
| "h2d_value SWITCH_CLOCK = 3"
| "h2d_value LOAD_LIBRARY = 4"
| "h2d_value RUN_KERNEL = 5"
| "h2d_value RPC_REPLY = 6"
| "h2d_value RPC_EXCEPTION = 7"
| "h2d_value FLASH_READ_REQUEST = 8"
| "h2d_value FLASH_WRITE_REQUEST = 9"
| "h2d_value FLASH_ERASE_REQUEST = 10"
| "h2d_value FLASH_REMOVE_REQUEST = 11"

text \<open>The call \<^verbatim>\<open>_D2HMsgType(raw_type)\<close>: the member with that value, if there is one.\<close>

definition d2h_of_value :: "int \<Rightarrow> d2h option" where
  "d2h_of_value v =
     (if v = 1 then Some LOG_REPLY
      else if v = 2 then Some IDENT_REPLY
      else if v = 3 then Some CLOCK_SWITCH_COMPLETED
      else if v = 4 then Some CLOCK_SWITCH_FAILED
      else if v = 5 then Some LOAD_COMPLETED
      else if v = 6 then Some LOAD_FAILED
      else if v = 7 then Some KERNEL_FINISHED
      else if v = 8 then Some KERNEL_STARTUP_FAILED
      else if v = 9 then Some KERNEL_EXCEPTION
      else if v = 10 then Some RPC_REQUEST
      else if v = 11 then Some FLASH_READ_REPLY
      else if v = 12 then Some FLASH_OK_REPLY
      else if v = 13 then Some FLASH_ERROR_REPLY
      else None)"

subsection \<open>Python values that cross the interface\<close>

type_synonym byte = "8 word"

text \<open>A Python \<^verbatim>\<open>str\<close>: its code points.\<close>

type_synonym pystr = "nat list"

definition py :: "string \<Rightarrow> pystr" where
  "py s = map of_char s"

text \<open>One entry of a traceback: file name, line, function.\<close>

type_synonym frame = "pystr \<times> int \<times> pystr"

text \<open>The fields of an \<^verbatim>\<open>ARTIQException\<close> that \<^verbatim>\<open>_serve_rpc\<close> reads.\<close>

record artiq_fields =
  exn_name :: pystr
  exn_message :: pystr
  exn_param :: "int list"
  exn_filename :: pystr
  exn_line :: int
  exn_column :: int
  exn_function :: pystr

text \<open>
  The class of an exception object, as far as the \<^verbatim>\<open>except\<close> clauses tell classes
  apart: an \<^verbatim>\<open>ARTIQException\<close>, another \<^verbatim>\<open>Exception\<close>, or a
  \<^verbatim>\<open>BaseException\<close> that is no \<^verbatim>\<open>Exception\<close> (\<^verbatim>\<open>KeyboardInterrupt\<close>,
  \<^verbatim>\<open>SystemExit\<close>).
\<close>

datatype exc_class = ARTIQ artiq_fields | OtherException | NotAnException

text \<open>
  An exception object as the handlers look at it: its class, \<^verbatim>\<open>type(exn).__name__\<close>,
  \<^verbatim>\<open>str(exn)\<close>, and the entries of \<^verbatim>\<open>traceback.extract_tb(exn.__traceback__)\<close>,
  outermost frame first.
\<close>

record pyexc =
  exc_class :: exc_class
  exc_type_name :: pystr
  exc_str :: pystr
  exc_tb :: "frame list"

datatype error =
    IOError_underrun int
  | OSError_closed
  | IOError_header_overrun int
  | IOError_overrun int int "d2h option"
  | IOError_incorrect_reply "d2h option" d2h
  | ValueError_msgtype int
  | TransportError
  | StructError
  | AttributeError
  | IOError_unknown_tag int
  | ZeroDivisionError
  | KeyError int
  | TypeError
  | ValueError_range_step
  | UnicodeDecodeError
  | UnicodeEncodeError
  | IndexError
  | RecursionError
  | NameError string
  | ValueError_unpack nat
  | RemoteException pystr pystr "int list" pystr int int pystr
  | Raised pyexc

subsection \<open>The object state and the transport\<close>

text \<open>
  The four fields of \<^verbatim>\<open>CommGeneric.__init__\<close>, and the transport a subclass supplies
  (\<^verbatim>\<open>read\<close>, \<^verbatim>\<open>write\<close>): \<open>rx\<close> holds the bytes the device will still send,
  \<open>tx\<close> the calls of \<^verbatim>\<open>write\<close> so far, oldest first.
\<close>

record comm =
  read_type :: "d2h option"
  write_type :: "h2d option"
  read_length :: int
  write_buffer :: "byte list list"
  rx :: "byte list"
  tx :: "byte list list"

type_synonym 'a op = "comm \<Rightarrow> (error + 'a) \<times> comm"

definition init :: "byte list \<Rightarrow> comm" where
  "init input = \<lparr>read_type = None, write_type = None, read_length = 0,
                  write_buffer = [], rx = input, tx = []\<rparr>"

text \<open>
  \<^verbatim>\<open>read(length)\<close> reads exactly \<^verbatim>\<open>length\<close> bytes or fails: here it fails when
  the device sends fewer, and on a negative length, which no transport can satisfy.
  \<^verbatim>\<open>write(data)\<close> appends one call to the log. \<^verbatim>\<open>open()\<close> does nothing on an
  opened channel.
\<close>

definition transport_read :: "int \<Rightarrow> byte list op" where
  "transport_read n st =
     (if n < 0 \<or> int (length (rx st)) < n then (Inl TransportError, st)
      else (Inr (take (nat n) (rx st)), st\<lparr>rx := drop (nat n) (rx st)\<rparr>))"

definition transport_write :: "byte list \<Rightarrow> unit op" where
  "transport_write data st = (Inr (), st\<lparr>tx := tx st @ [data]\<rparr>)"

text \<open>Sequencing: the second operation runs when the first did not raise.\<close>

definition thn :: "'a op \<Rightarrow> ('a \<Rightarrow> 'b op) \<Rightarrow> 'b op" where
  "thn m f st = (case m st of (Inl e, st') \<Rightarrow> (Inl e, st') | (Inr x, st') \<Rightarrow> f x st')"

definition ret :: "'a \<Rightarrow> 'a op" where
  "ret x st = (Inr x, st)"

definition raise :: "error \<Rightarrow> 'a op" where
  "raise e st = (Inl e, st)"

subsection \<open>The module \<^verbatim>\<open>struct\<close>\<close>

text \<open>
  The unsigned value of a string of bytes, most significant byte first, and the
  \<open>n\<close> low bytes of an integer in two's complement, in the same order.
\<close>

definition be_uint :: "byte list \<Rightarrow> int" where
  "be_uint bs = foldl (\<lambda>a b. a * 256 + uint b) 0 bs"

definition be_bytes :: "nat \<Rightarrow> int \<Rightarrow> byte list" where
  "be_bytes n v = map (\<lambda>i. word_of_int (v div 256 ^ (n - 1 - i))) [0..<n]"

text \<open>\<^verbatim>\<open>struct.unpack\<close> with \<^verbatim>\<open>"B"\<close>, \<^verbatim>\<open>">l"\<close>, \<^verbatim>\<open>">q"\<close> on a string of the right length.\<close>

definition unpack_B :: "byte list \<Rightarrow> int" where
  "unpack_B bs = be_uint bs"

definition unpack_l :: "byte list \<Rightarrow> int" where
  "unpack_l bs = (let u = be_uint bs in if 2 ^ 31 \<le> u then u - 2 ^ 32 else u)"

definition unpack_q :: "byte list \<Rightarrow> int" where
  "unpack_q bs = (let u = be_uint bs in if 2 ^ 63 \<le> u then u - 2 ^ 64 else u)"

text \<open>\<^verbatim>\<open>struct.pack\<close>: \<^verbatim>\<open>struct.error\<close> on a value out of the format's range.\<close>

definition pack_B :: "int \<Rightarrow> error + byte list" where
  "pack_B v = (if 0 \<le> v \<and> v \<le> 255 then Inr (be_bytes 1 v) else Inl StructError)"

definition pack_l :: "int \<Rightarrow> error + byte list" where
  "pack_l v = (if - (2 ^ 31) \<le> v \<and> v \<le> 2 ^ 31 - 1 then Inr (be_bytes 4 v) else Inl StructError)"

definition pack_q :: "int \<Rightarrow> error + byte list" where
  "pack_q v = (if - (2 ^ 63) \<le> v \<and> v \<le> 2 ^ 63 - 1 then Inr (be_bytes 8 v) else Inl StructError)"

subsection \<open>Reader interface\<close>

text \<open>
  The loop of \<^verbatim>\<open>_read_header\<close> that waits for \<^verbatim>\<open>5a 5a 5a 5a\<close>. It ends when the
  transport fails, which a finite input does once it is used up.
\<close>

lemma transport_read_one_shorter:
  "transport_read 1 st = (Inr bs, st') \<Longrightarrow> length (rx st') < length (rx st)"
  by (auto simp: transport_read_def split: if_splits)

function wait_sync :: "nat \<Rightarrow> unit op" where
  "wait_sync sync_count st =
     (if sync_count < 4 then
        (case transport_read 1 st of
           (Inl e, st') \<Rightarrow> (Inl e, st')
         | (Inr bs, st') \<Rightarrow>
             wait_sync (if unpack_B bs = 0x5a then sync_count + 1 else 0) st')
      else (Inr (), st))"
  by pat_completeness auto
termination
  by (relation "measure (\<lambda>(c, st). length (rx st))")
     (auto dest: transport_read_one_shorter [OF sym])

declare wait_sync.simps [simp del]

text \<open>
  \<^verbatim>\<open>_read_header\<close> after the synchronization: the length is stored in
  \<^verbatim>\<open>_read_length\<close> as soon as it is read, the type is converted next, and only
  then is the length compared with 9.
\<close>

definition read_header_fields :: "unit op" where
  "read_header_fields =
     thn (transport_read 4) (\<lambda>bs st.
       let st = st\<lparr>read_length := unpack_l bs\<rparr> in
       if read_length st = 0 then (Inl OSError_closed, st)
       else
         thn (transport_read 1) (\<lambda>tb st.
           let raw_type = unpack_B tb in
           case d2h_of_value raw_type of
             None \<Rightarrow> (Inl (ValueError_msgtype raw_type), st)
           | Some ty \<Rightarrow>
               let st = st\<lparr>read_type := Some ty\<rparr> in
               if read_length st < 9 then (Inl (IOError_header_overrun (read_length st)), st)
               else (Inr (), st\<lparr>read_length := read_length st - 9\<rparr>)) st)"

definition read_header :: "unit op" where
  "read_header st =
     (if read_length st > 0 then (Inl (IOError_underrun (read_length st)), st)
      else thn (wait_sync 0) (\<lambda>_. read_header_fields) st)"

definition read_expect :: "d2h \<Rightarrow> unit op" where
  "read_expect ty st =
     (if read_type st \<noteq> Some ty then (Inl (IOError_incorrect_reply (read_type st) ty), st)
      else (Inr (), st))"

definition read_empty :: "d2h \<Rightarrow> unit op" where
  "read_empty ty = thn read_header (\<lambda>_. read_expect ty)"

definition read_chunk :: "int \<Rightarrow> byte list op" where
  "read_chunk len st =
     (if read_length st < len then
        (Inl (IOError_overrun len (read_length st) (read_type st)), st)
      else transport_read len (st\<lparr>read_length := read_length st - len\<rparr>))"

definition read_int8 :: "int op" where
  "read_int8 = thn (read_chunk 1) (\<lambda>bs. ret (unpack_B bs))"

definition read_int32 :: "int op" where
  "read_int32 = thn (read_chunk 4) (\<lambda>bs. ret (unpack_l bs))"

definition read_int64 :: "int op" where
  "read_int64 = thn (read_chunk 8) (\<lambda>bs. ret (unpack_q bs))"

text \<open>A float is kept as the eight bytes of its IEEE 754 representation.\<close>

definition read_float64 :: "byte list op" where
  "read_float64 = read_chunk 8"

definition read_bytes :: "byte list op" where
  "read_bytes = thn read_int32 read_chunk"

text \<open>
  \<^verbatim>\<open>bytes.decode('utf-8')\<close>: the strict decoder. It raises on a stray continuation
  byte, a truncated or overlong sequence, a surrogate and a code point above
  \<^verbatim>\<open>U+10FFFF\<close>.
\<close>

definition cont :: "byte \<Rightarrow> bool" where
  "cont b = (0x80 \<le> unat b \<and> unat b \<le> 0xBF)"

fun utf8_decode :: "byte list \<Rightarrow> pystr option" where
  "utf8_decode [] = Some []"
| "utf8_decode (b0 # bs) =
     (let a = unat b0 in
      if a < 0x80 then map_option (Cons a) (utf8_decode bs)
      else if 0xC2 \<le> a \<and> a \<le> 0xDF then
        (case bs of
           b1 # r \<Rightarrow>
             if cont b1
             then map_option (Cons ((a - 0xC0) * 64 + (unat b1 - 0x80))) (utf8_decode r)
             else None
         | _ \<Rightarrow> None)
      else if 0xE0 \<le> a \<and> a \<le> 0xEF then
        (case bs of
           b1 # b2 # r \<Rightarrow>
             if (if a = 0xE0 then 0xA0 else 0x80) \<le> unat b1
                \<and> unat b1 \<le> (if a = 0xED then 0x9F else 0xBF) \<and> cont b2
             then map_option
                    (Cons ((a - 0xE0) * 4096 + (unat b1 - 0x80) * 64 + (unat b2 - 0x80)))
                    (utf8_decode r)
             else None
         | _ \<Rightarrow> None)
      else if 0xF0 \<le> a \<and> a \<le> 0xF4 then
        (case bs of
           b1 # b2 # b3 # r \<Rightarrow>
             if (if a = 0xF0 then 0x90 else 0x80) \<le> unat b1
                \<and> unat b1 \<le> (if a = 0xF4 then 0x8F else 0xBF) \<and> cont b2 \<and> cont b3
             then map_option
                    (Cons ((a - 0xF0) * 262144 + (unat b1 - 0x80) * 4096
                           + (unat b2 - 0x80) * 64 + (unat b3 - 0x80)))
                    (utf8_decode r)
             else None
         | _ \<Rightarrow> None)
      else None)"

text \<open>\<^verbatim>\<open>self._read_bytes()[:-1].decode('utf-8')\<close>: the last byte is dropped unseen.\<close>

definition read_string :: "pystr op" where
  "read_string =
     thn read_bytes (\<lambda>bs.
       case utf8_decode (butlast bs) of
         None \<Rightarrow> raise UnicodeDecodeError
       | Some s \<Rightarrow> ret s)"

subsection \<open>Writer interface\<close>

definition write_header :: "h2d \<Rightarrow> unit op" where
  "write_header ty st = (Inr (), st\<lparr>write_type := Some ty, write_buffer := []\<rparr>)"

text \<open>\<^verbatim>\<open>struct.pack(">llB", a, b, c)\<close>.\<close>

definition pack_llB :: "int \<Rightarrow> int \<Rightarrow> int \<Rightarrow> error + byte list" where
  "pack_llB a b c =
     (case pack_l a of Inl e \<Rightarrow> Inl e | Inr x \<Rightarrow>
      (case pack_l b of Inl e \<Rightarrow> Inl e | Inr y \<Rightarrow>
       (case pack_B c of Inl e \<Rightarrow> Inl e | Inr z \<Rightarrow> Inr (x @ y @ z))))"

text \<open>\<^verbatim>\<open>for chunk in self._write_buffer: self.write(chunk)\<close>.\<close>

fun write_all :: "byte list list \<Rightarrow> unit op" where
  "write_all [] = ret ()"
| "write_all (chunk # chunks) = thn (transport_write chunk) (\<lambda>_. write_all chunks)"

text \<open>
  \<^verbatim>\<open>_write_flush\<close>. The arguments of \<^verbatim>\<open>struct.pack\<close> are evaluated first, so a
  missing \<^verbatim>\<open>_write_type\<close> raises before the packing does. No field is assigned.
\<close>

definition write_flush :: "unit op" where
  "write_flush st =
     (let len = sum_list (map (\<lambda>chunk. int (length chunk)) (write_buffer st)) in
      case write_type st of
        None \<Rightarrow> (Inl AttributeError, st)
      | Some ty \<Rightarrow>
          (case pack_llB 0x5a5a5a5a (9 + len) (h2d_value ty) of
             Inl e \<Rightarrow> (Inl e, st)
           | Inr header \<Rightarrow> thn (transport_write header) (\<lambda>_. write_all (write_buffer st)) st))"

definition write_empty :: "h2d \<Rightarrow> unit op" where
  "write_empty ty = thn (write_header ty) (\<lambda>_. write_flush)"

definition write_chunk :: "byte list \<Rightarrow> unit op" where
  "write_chunk chunk st = (Inr (), st\<lparr>write_buffer := write_buffer st @ [chunk]\<rparr>)"

definition write_packed :: "error + byte list \<Rightarrow> unit op" where
  "write_packed p = (case p of Inl e \<Rightarrow> raise e | Inr bs \<Rightarrow> write_chunk bs)"

definition write_int8 :: "int \<Rightarrow> unit op" where
  "write_int8 v = write_packed (pack_B v)"

definition write_int32 :: "int \<Rightarrow> unit op" where
  "write_int32 v = write_packed (pack_l v)"

definition write_int64 :: "int \<Rightarrow> unit op" where
  "write_int64 v = write_packed (pack_q v)"

definition write_float64 :: "byte list \<Rightarrow> unit op" where
  "write_float64 v = write_chunk v"

definition write_bytes :: "byte list \<Rightarrow> unit op" where
  "write_bytes v = thn (write_int32 (int (length v))) (\<lambda>_. write_chunk v)"

text \<open>\<^verbatim>\<open>str.encode("utf-8")\<close>: it raises on a surrogate.\<close>

fun utf8_encode :: "pystr \<Rightarrow> byte list option" where
  "utf8_encode [] = Some []"
| "utf8_encode (c # cs) =
     (if c < 0x80 then map_option (Cons (of_nat c)) (utf8_encode cs)
      else if c < 0x800 then
        map_option (\<lambda>r. of_nat (0xC0 + c div 64) # of_nat (0x80 + c mod 64) # r) (utf8_encode cs)
      else if c < 0x10000 then
        (if 0xD800 \<le> c \<and> c \<le> 0xDFFF then None
         else map_option
                (\<lambda>r. of_nat (0xE0 + c div 4096) # of_nat (0x80 + c div 64 mod 64)
                       # of_nat (0x80 + c mod 64) # r)
                (utf8_encode cs))
      else if c < 0x110000 then
        map_option
          (\<lambda>r. of_nat (0xF0 + c div 262144) # of_nat (0x80 + c div 4096 mod 64)
                 # of_nat (0x80 + c div 64 mod 64) # of_nat (0x80 + c mod 64) # r)
          (utf8_encode cs)
      else None)"

definition write_string :: "pystr \<Rightarrow> unit op" where
  "write_string v =
     (case utf8_encode v of
        None \<Rightarrow> raise UnicodeEncodeError
      | Some bs \<Rightarrow> write_bytes (bs @ [0]))"

subsection \<open>RPC values\<close>

text \<open>
  What \<^verbatim>\<open>_receive_rpc_value\<close> returns: the sentinel object, a tuple, \<^verbatim>\<open>None\<close>, a
  \<^verbatim>\<open>bool\<close>, an \<^verbatim>\<open>int\<close> (from either width), a \<^verbatim>\<open>float\<close> (its eight bytes),
  a \<^verbatim>\<open>Fraction\<close> (numerator and denominator as the object stores them), a
  \<^verbatim>\<open>str\<close>, a list, a \<^verbatim>\<open>range\<close>, or an object of the RPC map (its identity).
\<close>

datatype rpc_value =
    Sentinel
  | VTuple "rpc_value list"
  | VNone
  | VBool bool
  | VInt int
  | VFloat "byte list"
  | VFraction int int
  | VStr pystr
  | VList "rpc_value list"
  | VRange int int int
  | VObj nat

text \<open>
  What a callable of the RPC map returns, as far as \<^verbatim>\<open>_serve_rpc\<close> looks at it: an
  \<^verbatim>\<open>int\<close>, a \<^verbatim>\<open>bool\<close> (which is an \<^verbatim>\<open>int\<close> for \<^verbatim>\<open>isinstance\<close>), or an
  object of another type. A call either returns or raises.
\<close>

datatype pyresult = RInt int | RBool bool | RNonInt

datatype outcome = Returns pyresult | Raises pyexc

text \<open>
  What the code runs in. The RPC map: a dictionary from indices to objects, and what
  calling an object with a list of arguments does. \<open>module_file\<close> is the file name of
  this module, which a traceback through \<^verbatim>\<open>_serve_rpc\<close> shows. The interpreter:
  every function of the file but \<^verbatim>\<open>_receive_rpc_value\<close> is called at a fixed depth,
  for which the stack is taken to have room; \<open>nesting_room\<close> is the number of frames it
  has beyond that, for the calls of \<^verbatim>\<open>_receive_rpc_value\<close> by itself (with the default
  recursion limit, less than a thousand). \<open>listcomp_frames\<close> is the number of frames a
  list comprehension takes: one before Python 3.12, none since.
\<close>

record rpc_env =
  rpc_map :: "int \<rightharpoonup> nat"
  rpc_invoke :: "nat \<Rightarrow> rpc_value list \<Rightarrow> outcome"
  module_file :: pystr
  nesting_room :: nat
  listcomp_frames :: nat

text \<open>
  The constructor \<^verbatim>\<open>fractions.Fraction(numerator, denominator)\<close> on two integers:
  it raises on a zero denominator, divides both by their greatest common divisor and
  gives the denominator the positive sign.
\<close>

definition Fraction :: "int \<Rightarrow> int \<Rightarrow> error + rpc_value" where
  "Fraction numerator denominator =
     (if denominator = 0 then Inl ZeroDivisionError
      else
        let g = (if denominator < 0 then - gcd numerator denominator
                 else gcd numerator denominator)
        in Inr (VFraction (numerator div g) (denominator div g)))"

text \<open>
  \<^verbatim>\<open>range(lower, upper, step)\<close> takes integers (a \<^verbatim>\<open>bool\<close> counts as one) and
  raises \<^verbatim>\<open>TypeError\<close> on the other values and \<^verbatim>\<open>ValueError\<close> on a zero step.
  Objects of the RPC map are taken not to be usable as an index.
\<close>

fun index_of :: "rpc_value \<Rightarrow> int option" where
  "index_of (VInt i) = Some i"
| "index_of (VBool b) = Some (if b then 1 else 0)"
| "index_of _ = None"

definition py_range :: "rpc_value \<Rightarrow> rpc_value \<Rightarrow> rpc_value \<Rightarrow> error + rpc_value" where
  "py_range lower upper step =
     (case (index_of lower, index_of upper, index_of step) of
        (Some l, Some u, Some s) \<Rightarrow>
          if s = 0 then Inl ValueError_range_step else Inr (VRange l u s)
      | _ \<Rightarrow> Inl TypeError)"

text \<open>A computation that does not touch the object, as an operation.\<close>

definition lift :: "error + 'a \<Rightarrow> 'a op" where
  "lift r = (case r of Inl e \<Rightarrow> raise e | Inr x \<Rightarrow> ret x)"

text \<open>\<^verbatim>\<open>[m() for _ in range(n)]\<close>: the results of \<open>n\<close> runs of \<open>m\<close>, in order.\<close>

fun repeat :: "nat \<Rightarrow> 'a op \<Rightarrow> 'a list op" where
  "repeat 0 m = ret []"
| "repeat (Suc n) m = thn m (\<lambda>x. thn (repeat n m) (\<lambda>xs. ret (x # xs)))"

text \<open>
  \<^verbatim>\<open>_receive_rpc_value\<close> after its tag is read. \<open>recv k\<close> stands for the recursive
  call \<^verbatim>\<open>self._receive_rpc_value(rpc_map)\<close> made \<open>k\<close> frames below the frame of this
  call: from the generator expression that \<^verbatim>\<open>tuple\<close> runs, from the list
  comprehension, or from the body itself.
\<close>

definition receive_rpc_tagged ::
  "rpc_env \<Rightarrow> (nat \<Rightarrow> rpc_value op) \<Rightarrow> int \<Rightarrow> rpc_value op" where
  "receive_rpc_tagged env recv tag =
     (if tag = 0x00 then ret Sentinel
      else if tag = 0x74 then
        thn read_int8 (\<lambda>len. thn (repeat (nat len) (recv 1)) (\<lambda>vs. ret (VTuple vs)))
      else if tag = 0x6e then ret VNone
      else if tag = 0x62 then thn read_int8 (\<lambda>v. ret (VBool (v \<noteq> 0)))
      else if tag = 0x69 then thn read_int32 (\<lambda>v. ret (VInt v))
      else if tag = 0x49 then thn read_int64 (\<lambda>v. ret (VInt v))
      else if tag = 0x66 then thn read_float64 (\<lambda>v. ret (VFloat v))
      else if tag = 0x46 then
        thn read_int64 (\<lambda>numerator.
          thn read_int64 (\<lambda>denominator. lift (Fraction numerator denominator)))
      else if tag = 0x73 then thn read_string (\<lambda>v. ret (VStr v))
      else if tag = 0x6c then
        thn read_int32 (\<lambda>len.
          thn (repeat (nat len) (recv (listcomp_frames env))) (\<lambda>vs. ret (VList vs)))
      else if tag = 0x72 then
        thn (recv 0) (\<lambda>lower. thn (recv 0) (\<lambda>upper. thn (recv 0) (\<lambda>step.
          lift (py_range lower upper step))))
      else if tag = 0x6f then
        thn read_int32 (\<lambda>i.
          case rpc_map env i of None \<Rightarrow> raise (KeyError i) | Some obj \<Rightarrow> ret (VObj obj))
      else raise (IOError_unknown_tag tag))"

text \<open>
  \<^verbatim>\<open>_receive_rpc_value\<close> with \<open>d\<close> frames of the stack left for it and the calls it
  nests: a call takes one, and with none left the interpreter raises
  \<^verbatim>\<open>RecursionError\<close> (where in the call it does so depends on the frames of the
  transport's \<^verbatim>\<open>read\<close>; here it is on entry, before a byte is read). The call from
  \<^verbatim>\<open>_receive_rpc_args\<close> is at the fixed depth, so it has its frame and
  \<open>nesting_room\<close> more.
\<close>

fun receive_rpc_value_frames :: "rpc_env \<Rightarrow> nat \<Rightarrow> rpc_value op" where
  "receive_rpc_value_frames env 0 = raise RecursionError"
| "receive_rpc_value_frames env (Suc d) =
     thn read_int8 (receive_rpc_tagged env (\<lambda>k. receive_rpc_value_frames env (d - k)))"

definition receive_rpc_value :: "rpc_env \<Rightarrow> rpc_value op" where
  "receive_rpc_value env = receive_rpc_value_frames env (Suc (nesting_room env))"

subsection \<open>Reading never gives input back\<close>

text \<open>
  The loops below end because a successful read uses up input and no operation
  returns any: \<open>nongrowing m\<close> says that \<open>m\<close> leaves at most the input it found.
\<close>

definition nongrowing :: "'a op \<Rightarrow> bool" where
  "nongrowing m = (\<forall>st. length (rx (snd (m st))) \<le> length (rx st))"

lemma nongrowing_thn:
  "nongrowing m \<Longrightarrow> (\<And>x. nongrowing (f x)) \<Longrightarrow> nongrowing (thn m f)"
proof -
  assume m: "nongrowing m" and f: "\<And>x. nongrowing (f x)"
  show ?thesis
    unfolding nongrowing_def
  proof
    fix st
    obtain r st1 where r: "m st = (r, st1)" by (cases "m st")
    from m r have le1: "length (rx st1) \<le> length (rx st)"
      by (metis nongrowing_def snd_conv)
    show "length (rx (snd (thn m f st))) \<le> length (rx st)"
    proof (cases r)
      case (Inl e)
      with r le1 show ?thesis by (simp add: thn_def)
    next
      case (Inr x)
      from f [of x] have "length (rx (snd (f x st1))) \<le> length (rx st1)"
        by (simp add: nongrowing_def)
      with Inr r le1 show ?thesis by (simp add: thn_def)
    qed
  qed
qed

lemma nongrowing_ret: "nongrowing (ret x)"
  by (simp add: nongrowing_def ret_def)

lemma nongrowing_raise: "nongrowing (raise e)"
  by (simp add: nongrowing_def raise_def)

lemma nongrowing_lift: "nongrowing (lift r)"
  by (cases r) (simp_all add: lift_def nongrowing_ret nongrowing_raise)

lemma nongrowing_transport_read: "nongrowing (transport_read n)"
  by (simp add: nongrowing_def transport_read_def)

lemma nongrowing_read_chunk: "nongrowing (read_chunk n)"
  by (simp add: nongrowing_def read_chunk_def transport_read_def)

lemmas nongrowing_intros =
  nongrowing_thn nongrowing_ret nongrowing_raise nongrowing_lift nongrowing_read_chunk

lemma nongrowing_read_int8: "nongrowing read_int8"
  unfolding read_int8_def by (intro nongrowing_intros)

lemma nongrowing_read_int32: "nongrowing read_int32"
  unfolding read_int32_def by (intro nongrowing_intros)

lemma nongrowing_read_int64: "nongrowing read_int64"
  unfolding read_int64_def by (intro nongrowing_intros)

lemma nongrowing_read_float64: "nongrowing read_float64"
  unfolding read_float64_def by (intro nongrowing_intros)

lemma nongrowing_read_bytes: "nongrowing read_bytes"
  unfolding read_bytes_def by (intro nongrowing_intros nongrowing_read_int32)

lemma nongrowing_read_string: "nongrowing read_string"
  unfolding read_string_def
  by (intro nongrowing_intros nongrowing_read_bytes) (auto split: option.splits intro: nongrowing_intros)

lemma nongrowing_repeat: "nongrowing m \<Longrightarrow> nongrowing (repeat n m)"
  by (induction n) (auto intro!: nongrowing_intros)

lemmas nongrowing_readers =
  nongrowing_read_int8 nongrowing_read_int32 nongrowing_read_int64 nongrowing_read_float64
  nongrowing_read_bytes nongrowing_read_string nongrowing_repeat

lemma nongrowing_receive_rpc_tagged:
  "(\<And>k. nongrowing (recv k)) \<Longrightarrow> nongrowing (receive_rpc_tagged env recv tag)"
  unfolding receive_rpc_tagged_def
  by (auto split: option.splits intro!: nongrowing_intros nongrowing_readers)

lemma nongrowing_receive_rpc_value_frames: "nongrowing (receive_rpc_value_frames env d)"
proof (induction d rule: less_induct)
  case (less d)
  show ?case
  proof (cases d)
    case 0
    then show ?thesis by (simp add: nongrowing_raise)
  next
    case (Suc n)
    have "nongrowing (receive_rpc_value_frames env (n - k))" for k
      using less [of "n - k"] Suc by simp
    then show ?thesis
      unfolding Suc receive_rpc_value_frames.simps
      by (intro nongrowing_intros nongrowing_readers nongrowing_receive_rpc_tagged)
  qed
qed

lemma nongrowing_receive_rpc_value: "nongrowing (receive_rpc_value env)"
  unfolding receive_rpc_value_def by (rule nongrowing_receive_rpc_value_frames)

lemma thn_Inr:
  "thn m f st = (Inr y, st') \<Longrightarrow> \<exists>x st1. m st = (Inr x, st1) \<and> f x st1 = (Inr y, st')"
  by (auto simp: thn_def split: prod.splits sum.splits)

lemma read_int8_shorter:
  "read_int8 st = (Inr x, st') \<Longrightarrow> length (rx st') < length (rx st)"
  by (auto simp: read_int8_def thn_def ret_def read_chunk_def transport_read_def
           split: prod.splits sum.splits if_splits)

lemma nongrowingD: "nongrowing m \<Longrightarrow> m st = (r, st') \<Longrightarrow> length (rx st') \<le> length (rx st)"
  by (metis nongrowing_def snd_conv)

lemma receive_rpc_value_frames_shorter:
  assumes "receive_rpc_value_frames env d st = (Inr v, st')"
  shows "length (rx st') < length (rx st)"
proof (cases d)
  case 0
  with assms show ?thesis by (simp add: raise_def)
next
  case (Suc n)
  with assms obtain tag st1 where
    t: "read_int8 st = (Inr tag, st1)" and
    k: "receive_rpc_tagged env (\<lambda>k. receive_rpc_value_frames env (n - k)) tag st1
        = (Inr v, st')"
    by (auto dest!: thn_Inr)
  have "nongrowing (receive_rpc_tagged env (\<lambda>k. receive_rpc_value_frames env (n - k)) tag)"
    by (intro nongrowing_receive_rpc_tagged nongrowing_receive_rpc_value_frames)
  then have "length (rx st') \<le> length (rx st1)"
    using k by (rule nongrowingD)
  with read_int8_shorter [OF t] show ?thesis by simp
qed

lemma receive_rpc_value_shorter:
  "receive_rpc_value env st = (Inr v, st') \<Longrightarrow> length (rx st') < length (rx st)"
  unfolding receive_rpc_value_def by (rule receive_rpc_value_frames_shorter)

text \<open>The loop of \<^verbatim>\<open>_receive_rpc_args\<close>, with the list \<^verbatim>\<open>args\<close> built so far.\<close>

function receive_rpc_args_loop :: "rpc_env \<Rightarrow> rpc_value list \<Rightarrow> rpc_value list op" where
  "receive_rpc_args_loop env args st =
     (case receive_rpc_value env st of
        (Inl e, st') \<Rightarrow> (Inl e, st')
      | (Inr v, st') \<Rightarrow>
          if v = Sentinel then (Inr args, st')
          else receive_rpc_args_loop env (args @ [v]) st')"
  by pat_completeness auto
termination
  by (relation "measure (\<lambda>(env, args, st). length (rx st))")
     (auto dest: receive_rpc_value_shorter [OF sym])

declare receive_rpc_args_loop.simps [simp del]

definition receive_rpc_args :: "rpc_env \<Rightarrow> rpc_value list op" where
  "receive_rpc_args env = receive_rpc_args_loop env []"

subsection \<open>Serving an RPC\<close>

text \<open>
  The names the module binds at its top level (its imports, \<^verbatim>\<open>logger\<close> and its
  classes), and the built-in names the file uses. \<^verbatim>\<open>ARTIQException\<close> is not among
  them: the module imports \<^verbatim>\<open>artiq.language.core\<close> as \<^verbatim>\<open>core_language\<close> and
  nothing from it.
\<close>

definition module_globals :: "string list" where
  "module_globals =
     [''struct'', ''logging'', ''traceback'', ''Enum'', ''Fraction'', ''core_language'',
      ''logger'', ''_H2DMsgType'', ''_D2HMsgType'', ''UnsupportedDevice'', ''CommGeneric'']"

definition builtins :: "string list" where
  "builtins =
     [''Exception'', ''IOError'', ''OSError'', ''ValueError'', ''NotImplementedError'',
      ''object'', ''chr'', ''bool'', ''tuple'', ''range'', ''repr'', ''isinstance'', ''int'',
      ''type'', ''str'', ''sum'', ''len'']"

definition name_resolves :: "string \<Rightarrow> bool" where
  "name_resolves n = (n \<in> set module_globals \<or> n \<in> set builtins)"

text \<open>\<^verbatim>\<open>repr\<close> of an \<^verbatim>\<open>int\<close>.\<close>

fun digits :: "nat \<Rightarrow> pystr" where
  "digits n = (if n < 10 then [48 + n] else digits (n div 10) @ [48 + n mod 10])"

declare digits.simps [simp del]

definition repr_int :: "int \<Rightarrow> pystr" where
  "repr_int i = (if i < 0 then 45 # digits (nat (- i)) else digits (nat i))"

text \<open>
  The frame of \<^verbatim>\<open>_serve_rpc\<close> in a traceback, at a line of its \<^verbatim>\<open>try\<close> block.
\<close>

definition serve_rpc_frame :: "rpc_env \<Rightarrow> int \<Rightarrow> frame" where
  "serve_rpc_frame env line = (module_file env, line, py ''_serve_rpc'')"

definition isinstance_int :: "pyresult \<Rightarrow> bool" where
  "isinstance_int result = (case result of RInt _ \<Rightarrow> True | RBool _ \<Rightarrow> True | RNonInt \<Rightarrow> False)"

definition int_of :: "pyresult \<Rightarrow> int" where
  "int_of result = (case result of RInt i \<Rightarrow> i | RBool b \<Rightarrow> (if b then 1 else 0) | RNonInt \<Rightarrow> 0)"

text \<open>
  The body of the \<^verbatim>\<open>try\<close> of \<^verbatim>\<open>_serve_rpc\<close> (lines 331 to 333): the exception it
  raises, with its traceback as the handlers see it, or the result.
\<close>

definition rpc_try :: "rpc_env \<Rightarrow> int \<Rightarrow> rpc_value list \<Rightarrow> pyexc + pyresult" where
  "rpc_try env service args =
     (case rpc_map env service of
        None \<Rightarrow>
          Inl \<lparr>exc_class = OtherException, exc_type_name = py ''KeyError'',
               exc_str = repr_int service, exc_tb = [serve_rpc_frame env 331]\<rparr>
      | Some callable \<Rightarrow>
          (case rpc_invoke env callable args of
             Raises exn \<Rightarrow> Inl (exn\<lparr>exc_tb := serve_rpc_frame env 331 # exc_tb exn\<rparr>)
           | Returns result \<Rightarrow>
               if \<not> isinstance_int result
                  \<or> \<not> (- (2 ^ 31) < int_of result \<and> int_of result < 2 ^ 31 - 1)
               then Inl \<lparr>exc_class = OtherException, exc_type_name = py ''ValueError'',
                         exc_str = py ''An RPC must return an int(width=32)'',
                         exc_tb = [serve_rpc_frame env 333]\<rparr>
               else Inr result))"

text \<open>\<^verbatim>\<open>exn.param[index]\<close>.\<close>

definition param_at :: "int list \<Rightarrow> nat \<Rightarrow> int op" where
  "param_at ps index = (if index < length ps then ret (ps ! index) else raise IndexError)"

text \<open>The body of \<^verbatim>\<open>except ARTIQException as exn\<close> (lines 335 to 348).\<close>

definition except_artiq :: "artiq_fields \<Rightarrow> unit op" where
  "except_artiq exn =
     thn (write_header RPC_EXCEPTION) (\<lambda>_.
     thn (write_string (exn_name exn)) (\<lambda>_.
     thn (write_string (exn_message exn)) (\<lambda>_.
     thn (thn (param_at (exn_param exn) 0) write_int64) (\<lambda>_.
     thn (thn (param_at (exn_param exn) 1) write_int64) (\<lambda>_.
     thn (thn (param_at (exn_param exn) 2) write_int64) (\<lambda>_.
     thn (write_string (exn_filename exn)) (\<lambda>_.
     thn (write_int32 (exn_line exn)) (\<lambda>_.
     thn (write_int32 (exn_column exn)) (\<lambda>_.
     thn (write_string (exn_function exn)) (\<lambda>_.
     write_flush))))))))))"

text \<open>
  The body of \<^verbatim>\<open>except Exception as exn\<close> (lines 350 to 364). The assignment
  \<^verbatim>\<open>((filename, line, function, _), ) = traceback.extract_tb(...)\<close> takes a
  traceback of exactly one entry.
\<close>

definition except_exception :: "pyexc \<Rightarrow> unit op" where
  "except_exception exn =
     thn (write_header RPC_EXCEPTION) (\<lambda>_.
     thn (write_string (exc_type_name exn)) (\<lambda>_.
     thn (write_string (exc_str exn)) (\<lambda>_.
     thn (write_int64 0) (\<lambda>_.
     thn (write_int64 0) (\<lambda>_.
     thn (write_int64 0) (\<lambda>_.
     case exc_tb exn of
       [(filename, line, function)] \<Rightarrow>
         thn (write_string filename) (\<lambda>_.
         thn (write_int32 line) (\<lambda>_.
         thn (write_int32 (- 1)) (\<lambda>_.
         thn (write_string function) (\<lambda>_.
         write_flush))))
     | tb \<Rightarrow> raise (ValueError_unpack (length tb))))))))"

text \<open>
  The \<^verbatim>\<open>except\<close> clauses, tried in order once the \<^verbatim>\<open>try\<close> body has raised
  \<open>exn\<close>: each evaluates its class expression first, and a name that does not
  resolve raises \<^verbatim>\<open>NameError\<close> from there.
\<close>

definition rpc_except :: "pyexc \<Rightarrow> unit op" where
  "rpc_except exn =
     (if \<not> name_resolves ''ARTIQException'' then raise (NameError ''ARTIQException'')
      else
        (case exc_class exn of
           ARTIQ flds \<Rightarrow> except_artiq flds
         | OtherException \<Rightarrow>
             if \<not> name_resolves ''Exception'' then raise (NameError ''Exception'')
             else except_exception exn
         | NotAnException \<Rightarrow>
             if \<not> name_resolves ''Exception'' then raise (NameError ''Exception'')
             else raise (Raised exn)))"

definition serve_rpc :: "rpc_env \<Rightarrow> unit op" where
  "serve_rpc env =
     thn read_int32 (\<lambda>service.
     thn (receive_rpc_args env) (\<lambda>args.
       case rpc_try env service args of
         Inl exn \<Rightarrow> rpc_except exn
       | Inr result \<Rightarrow>
           thn (write_header RPC_REPLY) (\<lambda>_.
           thn (write_int32 (int_of result)) (\<lambda>_.
           write_flush))))"

text \<open>\<^verbatim>\<open>_serve_exception\<close>: it reads the record and raises it.\<close>

definition serve_exception :: "unit op" where
  "serve_exception =
     thn read_string (\<lambda>name.
     thn read_string (\<lambda>message.
     thn (repeat 3 read_int64) (\<lambda>params.
     thn read_string (\<lambda>filename.
     thn read_int32 (\<lambda>line.
     thn read_int32 (\<lambda>column.
     thn read_string (\<lambda>function.
     thn read_int32 (\<lambda>count.
     thn (repeat (nat count) read_int32) (\<lambda>backtrace.
     raise (RemoteException name message params filename line column function))))))))))"

lemma nongrowing_write_header: "nongrowing (write_header ty)"
  by (simp add: nongrowing_def write_header_def)

lemma nongrowing_transport_write: "nongrowing (transport_write bs)"
  by (simp add: nongrowing_def transport_write_def)

lemma nongrowing_write_all: "nongrowing (write_all chunks)"
  by (induction chunks) (auto intro!: nongrowing_intros nongrowing_transport_write)

lemma nongrowing_write_flush: "nongrowing write_flush"
proof -
  have body: "nongrowing (thn (transport_write h) (\<lambda>_. write_all cs))" for h cs
    by (intro nongrowing_intros nongrowing_transport_write nongrowing_write_all)
  have "length (rx (snd (write_flush st))) \<le> length (rx st)" for st
    using body [unfolded nongrowing_def]
    by (simp add: write_flush_def Let_def split: option.splits sum.splits)
  then show ?thesis by (simp add: nongrowing_def)
qed

lemma nongrowing_write_chunk: "nongrowing (write_chunk c)"
  by (simp add: nongrowing_def write_chunk_def)

lemma nongrowing_write_packed: "nongrowing (write_packed p)"
  by (cases p) (simp_all add: write_packed_def nongrowing_raise nongrowing_write_chunk)

lemma nongrowing_write_int32: "nongrowing (write_int32 v)"
  by (simp add: write_int32_def nongrowing_write_packed)

lemma nongrowing_write_int64: "nongrowing (write_int64 v)"
  by (simp add: write_int64_def nongrowing_write_packed)

lemma nongrowing_write_bytes: "nongrowing (write_bytes v)"
  unfolding write_bytes_def
  by (intro nongrowing_intros nongrowing_write_int32 nongrowing_write_chunk)

lemma nongrowing_write_string: "nongrowing (write_string v)"
  by (cases "utf8_encode v") (simp_all add: write_string_def nongrowing_raise nongrowing_write_bytes)

lemma nongrowing_param_at: "nongrowing (param_at ps i)"
  by (simp add: param_at_def nongrowing_ret nongrowing_raise)

lemmas nongrowing_writers =
  nongrowing_write_header nongrowing_write_flush nongrowing_write_int32 nongrowing_write_int64
  nongrowing_write_string nongrowing_param_at

lemma nongrowing_except_artiq: "nongrowing (except_artiq flds)"
  unfolding except_artiq_def by (intro nongrowing_intros nongrowing_writers)

lemma nongrowing_except_exception: "nongrowing (except_exception exn)"
  unfolding except_exception_def
  by (intro nongrowing_intros nongrowing_writers)
     (auto split: list.splits intro!: nongrowing_intros nongrowing_writers)

lemma nongrowing_rpc_except: "nongrowing (rpc_except exn)"
  by (auto simp: rpc_except_def nongrowing_raise nongrowing_except_artiq
                 nongrowing_except_exception split: exc_class.splits)

lemma nongrowing_receive_rpc_args_loop: "nongrowing (receive_rpc_args_loop env args)"
proof -
  have "length (rx (snd (receive_rpc_args_loop env args st))) \<le> length (rx st)" for st
  proof (induction env args st rule: receive_rpc_args_loop.induct)
    case (1 env args st)
    obtain r st1 where r: "receive_rpc_value env st = (r, st1)"
      by (cases "receive_rpc_value env st")
    have le: "length (rx st1) \<le> length (rx st)"
      using nongrowing_receive_rpc_value r by (rule nongrowingD)
    show ?case
    proof (cases r)
      case (Inl e)
      with r le show ?thesis by (simp add: receive_rpc_args_loop.simps [of env args st])
    next
      case (Inr v)
      show ?thesis
      proof (cases "v = Sentinel")
        case True
        with Inr r le show ?thesis by (simp add: receive_rpc_args_loop.simps [of env args st])
      next
        case False
        from "1.IH" [OF r [symmetric, unfolded Inr] refl False]
        have "length (rx (snd (receive_rpc_args_loop env (args @ [v]) st1))) \<le> length (rx st1)" .
        with Inr r le False show ?thesis
          by (simp add: receive_rpc_args_loop.simps [of env args st])
      qed
    qed
  qed
  then show ?thesis by (simp add: nongrowing_def)
qed

lemma nongrowing_receive_rpc_args: "nongrowing (receive_rpc_args env)"
  by (simp add: receive_rpc_args_def nongrowing_receive_rpc_args_loop)

lemma nongrowing_serve_rpc: "nongrowing (serve_rpc env)"
  unfolding serve_rpc_def
  by (intro nongrowing_intros nongrowing_readers nongrowing_receive_rpc_args)
     (auto split: sum.splits intro!: nongrowing_intros nongrowing_writers nongrowing_rpc_except)

lemma nongrowing_serve_exception: "nongrowing serve_exception"
  unfolding serve_exception_def
  by (intro nongrowing_intros nongrowing_readers)

lemma nongrowing_wait_sync: "nongrowing (wait_sync c)"
proof -
  have "length (rx (snd (wait_sync c st))) \<le> length (rx st)" for st
  proof (induction c st rule: wait_sync.induct)
    case (1 c st)
    show ?case
    proof (cases "c < 4")
      case False
      then show ?thesis by (simp add: wait_sync.simps [of c st])
    next
      case True
      obtain r st1 where r: "transport_read 1 st = (r, st1)" by (cases "transport_read 1 st")
      have le: "length (rx st1) \<le> length (rx st)"
        using nongrowing_transport_read r by (rule nongrowingD)
      show ?thesis
      proof (cases r)
        case (Inl e)
        with True r le show ?thesis by (simp add: wait_sync.simps [of c st])
      next
        case (Inr bs)
        from "1.IH" [OF True r [symmetric, unfolded Inr] refl]
        have "length (rx (snd (wait_sync (if unpack_B bs = 0x5a then c + 1 else 0) st1)))
              \<le> length (rx st1)" .
        with True Inr r le show ?thesis by (simp add: wait_sync.simps [of c st])
      qed
    qed
  qed
  then show ?thesis by (simp add: nongrowing_def)
qed

lemma read_header_fields_shorter:
  "read_header_fields st = (Inr u, st') \<Longrightarrow> length (rx st') < length (rx st)"
  by (auto simp: read_header_fields_def thn_def Let_def transport_read_def
           split: prod.splits sum.splits if_splits option.splits)

lemma read_header_shorter:
  assumes "read_header st = (Inr u, st')"
  shows "length (rx st') < length (rx st)"
proof -
  from assms obtain st1 where w: "wait_sync 0 st = (Inr (), st1)"
    and f: "read_header_fields st1 = (Inr u, st')"
    by (auto simp: read_header_def split: if_splits dest!: thn_Inr)
  from nongrowing_wait_sync w have "length (rx st1) \<le> length (rx st)" by (rule nongrowingD)
  with read_header_fields_shorter [OF f] show ?thesis by simp
qed

subsection \<open>The serve loop\<close>

function serve :: "rpc_env \<Rightarrow> unit op" where
  "serve env st =
     (case read_header st of
        (Inl e, st1) \<Rightarrow> (Inl e, st1)
      | (Inr u, st1) \<Rightarrow>
          if read_type st1 = Some RPC_REQUEST then
            (case serve_rpc env st1 of
               (Inl e, st2) \<Rightarrow> (Inl e, st2)
             | (Inr u2, st2) \<Rightarrow> serve env st2)
          else if read_type st1 = Some KERNEL_EXCEPTION then
            (case serve_exception st1 of
               (Inl e, st2) \<Rightarrow> (Inl e, st2)
             | (Inr u2, st2) \<Rightarrow> serve env st2)
          else read_expect KERNEL_FINISHED st1)"
  by pat_completeness auto
termination
proof (relation "measure (\<lambda>(env, st). length (rx st))")
  show "wf (measure (\<lambda>(env, st). length (rx st)))" by simp
next
  fix env st x1 st1 u x2 st2 u2
  assume h: "(x1, st1) = read_header st" "x1 = Inr u" and
    s: "(x2, st2) = serve_rpc env st1" "x2 = Inr u2"
  from h have "length (rx st1) < length (rx st)" by (metis read_header_shorter)
  moreover from s have "length (rx st2) \<le> length (rx st1)"
    by (metis nongrowingD nongrowing_serve_rpc)
  ultimately show "((env, st2), (env, st)) \<in> measure (\<lambda>(env, st). length (rx st))" by simp
next
  fix env st x1 st1 u x2 st2 u2
  assume h: "(x1, st1) = read_header st" "x1 = Inr u" and
    s: "(x2, st2) = serve_exception st1" "x2 = Inr u2"
  from h have "length (rx st1) < length (rx st)" by (metis read_header_shorter)
  moreover from s have "length (rx st2) \<le> length (rx st1)"
    by (metis nongrowingD nongrowing_serve_exception)
  ultimately show "((env, st2), (env, st)) \<in> measure (\<lambda>(env, st). length (rx st))" by simp
qed

declare serve.simps [simp del]

section \<open>Notions and scenarios of the properties\<close>

text \<open>An operation that never makes the remaining length negative.\<close>

definition keeps_nonneg :: "'a op \<Rightarrow> bool" where
  "keeps_nonneg m = (\<forall>st. 0 \<le> read_length st \<longrightarrow> 0 \<le> read_length (snd (m st)))"

text \<open>A \<^verbatim>\<open>KERNEL_FINISHED\<close> frame that declares a body of three bytes.\<close>

definition frame_finished :: "byte list" where
  "frame_finished = [0x5a, 0x5a, 0x5a, 0x5a, 0, 0, 0, 12, 7, 0xff, 0xff, 0xff]"

text \<open>The total length of the buffered chunks.\<close>

definition buffered :: "comm \<Rightarrow> int" where
  "buffered st = sum_list (map (\<lambda>chunk. int (length chunk)) (write_buffer st))"

text \<open>A writer with two chunks buffered for an \<^verbatim>\<open>RPC_REPLY\<close>.\<close>

definition pending :: comm where
  "pending = (init [])\<lparr>write_type := Some RPC_REPLY, write_buffer := [[0, 0], [0, 7]]\<rparr>"

text \<open>An RPC map with no entry.\<close>

definition no_services :: rpc_env where
  "no_services = \<lparr>rpc_map = Map.empty, rpc_invoke = (\<lambda>_ _. Returns RNonInt),
                   module_file = py ''comm_generic.py'', nesting_room = 990,
                   listcomp_frames = 1\<rparr>"

text \<open>An RPC map whose service 3 returns \<open>r\<close>, whatever its arguments.\<close>

definition returning :: "pyresult \<Rightarrow> rpc_env" where
  "returning r = \<lparr>rpc_map = [3 \<mapsto> 0], rpc_invoke = (\<lambda>_ _. Returns r),
                   module_file = py ''comm_generic.py'', nesting_room = 990,
                   listcomp_frames = 1\<rparr>"

text \<open>The exception of line 333.\<close>

definition rpc_value_error :: "rpc_env \<Rightarrow> pyexc" where
  "rpc_value_error env =
     \<lparr>exc_class = OtherException, exc_type_name = py ''ValueError'',
      exc_str = py ''An RPC must return an int(width=32)'',
      exc_tb = [serve_rpc_frame env 333]\<rparr>"

text \<open>The body of an \<^verbatim>\<open>RPC_REQUEST\<close> for service 3 with no argument, its header read.\<close>

definition request3 :: comm where
  "request3 = (init [0, 0, 0, 3, 0x00])\<lparr>read_type := Some RPC_REQUEST, read_length := 5\<rparr>"

text \<open>An RPC map whose service 3 raises \<open>exn\<close>.\<close>

definition raising :: "pyexc \<Rightarrow> rpc_env" where
  "raising exn = \<lparr>rpc_map = [3 \<mapsto> 0], rpc_invoke = (\<lambda>_ _. Raises exn),
                   module_file = py ''comm_generic.py'', nesting_room = 990,
                   listcomp_frames = 1\<rparr>"

text \<open>
  A \<^verbatim>\<open>RuntimeError\<close> raised in the body of a Python function \<^verbatim>\<open>ping\<close>: its
  traceback has the frame of \<^verbatim>\<open>ping\<close> below the one of the caller.
\<close>

definition ping_failure :: pyexc where
  "ping_failure =
     \<lparr>exc_class = OtherException, exc_type_name = py ''RuntimeError'', exc_str = py ''boom'',
      exc_tb = [(py ''service.py'', 12, py ''ping'')]\<rparr>"

text \<open>
  The frames the device sends: an \<^verbatim>\<open>RPC_REQUEST\<close> for service 3 with no argument,
  then \<^verbatim>\<open>KERNEL_FINISHED\<close>.
\<close>

definition request3_then_finished :: "byte list" where
  "request3_then_finished =
     [0x5a, 0x5a, 0x5a, 0x5a, 0, 0, 0, 14, 10, 0, 0, 0, 3, 0x00,
      0x5a, 0x5a, 0x5a, 0x5a, 0, 0, 0, 9, 7]"

text \<open>
  The RPC values as the device sends them, one constructor for each tag but the
  sentinel's: what a value holds before the host builds its own value from it. A
  float is its eight bytes.
\<close>

datatype wire =
    WTuple "wire list"
  | WNone
  | WBool bool
  | WInt32 int
  | WInt64 int
  | WFloat "byte list"
  | WFraction int int
  | WStr pystr
  | WList "wire list"
  | WRange wire wire wire
  | WObj int

text \<open>The ranges of \<^verbatim>\<open>int32\<close> and \<^verbatim>\<open>int64\<close>.\<close>

definition int32 :: "int \<Rightarrow> bool" where
  "int32 i = (- (2 ^ 31) \<le> i \<and> i \<le> 2 ^ 31 - 1)"

definition int64 :: "int \<Rightarrow> bool" where
  "int64 i = (- (2 ^ 63) \<le> i \<and> i \<le> 2 ^ 63 - 1)"

text \<open>
  Modelled from the spec: the encoding of an RPC value. The encoder is the device's
  and is not a function of this module; this one is the dual of the decoding the
  spec describes tag by tag: the tag byte, then for \<^verbatim>\<open>t\<close> an int8 arity and the
  elements, for \<^verbatim>\<open>b\<close> an int8, for \<^verbatim>\<open>i\<close> and \<^verbatim>\<open>I\<close> a big-endian int32 and int64,
  for \<^verbatim>\<open>f\<close> the eight bytes, for \<^verbatim>\<open>F\<close> two int64, for \<^verbatim>\<open>s\<close> an int32 length and
  the UTF-8 bytes with the terminating zero byte that the length counts, for \<^verbatim>\<open>l\<close>
  an int32 count and the elements, for \<^verbatim>\<open>r\<close> the three values, for \<^verbatim>\<open>o\<close> an int32
  index. A string with no UTF-8 form has no encoding.
\<close>

fun encode :: "wire \<Rightarrow> byte list" where
  "encode (WTuple ws) = [0x74, of_nat (length ws)] @ concat (map encode ws)"
| "encode WNone = [0x6e]"
| "encode (WBool b) = [0x62, if b then 1 else 0]"
| "encode (WInt32 i) = [0x69] @ be_bytes 4 i"
| "encode (WInt64 i) = [0x49] @ be_bytes 8 i"
| "encode (WFloat bs) = [0x66] @ bs"
| "encode (WFraction n d) = [0x46] @ be_bytes 8 n @ be_bytes 8 d"
| "encode (WStr s) =
     (case utf8_encode s of
        None \<Rightarrow> []
      | Some bs \<Rightarrow> [0x73] @ be_bytes 4 (int (length bs) + 1) @ bs @ [0x00])"
| "encode (WList ws) = [0x6c] @ be_bytes 4 (int (length ws)) @ concat (map encode ws)"
| "encode (WRange lower upper step) = [0x72] @ encode lower @ encode upper @ encode step"
| "encode (WObj i) = [0x6f] @ be_bytes 4 i"

text \<open>
  The values that have an encoding: every field fits the width it is sent in, a
  tuple has at most 255 elements and a string has a UTF-8 form.
\<close>

fun well_formed :: "wire \<Rightarrow> bool" where
  "well_formed (WTuple ws) = (length ws \<le> 255 \<and> (\<forall>w \<in> set ws. well_formed w))"
| "well_formed WNone = True"
| "well_formed (WBool b) = True"
| "well_formed (WInt32 i) = int32 i"
| "well_formed (WInt64 i) = int64 i"
| "well_formed (WFloat bs) = (length bs = 8)"
| "well_formed (WFraction n d) = (int64 n \<and> int64 d)"
| "well_formed (WStr s) =
     (case utf8_encode s of None \<Rightarrow> False | Some bs \<Rightarrow> int32 (int (length bs) + 1))"
| "well_formed (WList ws) = (int32 (int (length ws)) \<and> (\<forall>w \<in> set ws. well_formed w))"
| "well_formed (WRange lower upper step) =
     (well_formed lower \<and> well_formed upper \<and> well_formed step)"
| "well_formed (WObj i) = int32 i"

text \<open>The result of a computation that may raise, or nothing.\<close>

definition result_option :: "error + 'a \<Rightarrow> 'a option" where
  "result_option r = (case r of Inl e \<Rightarrow> None | Inr x \<Rightarrow> Some x)"

text \<open>
  The Python value an encoded value stands for, when there is one: a rational is
  what \<^verbatim>\<open>Fraction\<close> builds from the pair, a range what \<^verbatim>\<open>range\<close> builds from the
  three values, and an object reference the object the RPC map has at its index.
\<close>

fun host_value :: "rpc_env \<Rightarrow> wire \<Rightarrow> rpc_value option" where
  "host_value env (WTuple ws) = map_option VTuple (those (map (host_value env) ws))"
| "host_value env WNone = Some VNone"
| "host_value env (WBool b) = Some (VBool b)"
| "host_value env (WInt32 i) = Some (VInt i)"
| "host_value env (WInt64 i) = Some (VInt i)"
| "host_value env (WFloat bs) = Some (VFloat bs)"
| "host_value env (WFraction n d) = result_option (Fraction n d)"
| "host_value env (WStr s) = Some (VStr s)"
| "host_value env (WList ws) = map_option VList (those (map (host_value env) ws))"
| "host_value env (WRange lower upper step) =
     (case (host_value env lower, host_value env upper, host_value env step) of
        (Some l, Some u, Some s) \<Rightarrow> result_option (py_range l u s)
      | _ \<Rightarrow> None)"
| "host_value env (WObj i) = map_option VObj (rpc_map env i)"

text \<open>
  The frames of the stack that decoding a value takes beyond the one of the call
  that reads its tag: an element of a tuple is read two frames further (the
  generator expression and the call), an element of a list the frame of the
  comprehension, where it has one, and the call further, and a bound of a range one
  call further.
\<close>

fun frames_needed :: "rpc_env \<Rightarrow> wire \<Rightarrow> nat" where
  "frames_needed env (WTuple ws) = foldr max (map (\<lambda>w. 2 + frames_needed env w) ws) 0"
| "frames_needed env (WList ws) =
     foldr max (map (\<lambda>w. Suc (listcomp_frames env) + frames_needed env w) ws) 0"
| "frames_needed env (WRange lower upper step) =
     Suc (max (frames_needed env lower)
            (max (frames_needed env upper) (frames_needed env step)))"
| "frames_needed env _ = 0"

text \<open>The reader after \<open>n\<close> bytes of the body have been read and \<open>rest\<close> is left.\<close>

definition advance :: "nat \<Rightarrow> byte list \<Rightarrow> comm \<Rightarrow> comm" where
  "advance n rest st = st\<lparr>read_length := read_length st - int n, rx := rest\<rparr>"

text \<open>The value \<^verbatim>\<open>None\<close> inside \<open>n\<close> tuples of one element.\<close>

fun deep :: "nat \<Rightarrow> wire" where
  "deep 0 = WNone"
| "deep (Suc n) = WTuple [deep n]"

text \<open>
  A body with the arguments 42 and \<^verbatim>\<open>(None, True)\<close>, the sentinel, and one byte
  more.
\<close>

definition two_args :: comm where
  "two_args = (init [0x69, 0, 0, 0, 42, 0x74, 2, 0x6e, 0x62, 1, 0x00, 0xff])\<lparr>read_length := 11\<rparr>"

section \<open>The frame reader\<close>

subsection \<open>Synchronization\<close>

lemma uint_eq_5a: "(uint (b::byte) = 0x5a) = (b = 0x5a)"
  by (auto simp: word_uint_eq_iff)

lemma transport_read_one:
  "transport_read 1 (st\<lparr>rx := b # bs\<rparr>) = (Inr [b], st\<lparr>rx := bs\<rparr>)"
  by (simp add: transport_read_def)

lemma unpack_B_single: "unpack_B [b] = uint b"
  by (simp add: unpack_B_def be_uint_def)

lemma wait_sync_step:
  "c < 4 \<Longrightarrow>
   wait_sync c (st\<lparr>rx := b # bs\<rparr>) = wait_sync (if b = 0x5a then c + 1 else 0) (st\<lparr>rx := bs\<rparr>)"
  by (subst wait_sync.simps) (simp add: transport_read_one unpack_B_single uint_eq_5a)

lemma wait_sync_noise:
  "\<forall>b \<in> set noise. b \<noteq> 0x5a \<Longrightarrow>
   wait_sync 0 (st\<lparr>rx := noise @ bs\<rparr>) = wait_sync 0 (st\<lparr>rx := bs\<rparr>)"
  by (induction noise) (simp_all add: wait_sync_step)

lemma wait_sync_four:
  "wait_sync 0 (st\<lparr>rx := 0x5a # 0x5a # 0x5a # 0x5a # bs\<rparr>) = (Inr (), st\<lparr>rx := bs\<rparr>)"
  by (simp add: wait_sync_step) (simp add: wait_sync.simps)

lemma wait_sync_noise_four:
  "\<forall>b \<in> set noise. b \<noteq> 0x5a \<Longrightarrow>
   wait_sync 0 (st\<lparr>rx := noise @ [0x5a, 0x5a, 0x5a, 0x5a] @ bs\<rparr>) = (Inr (), st\<lparr>rx := bs\<rparr>)"
  using wait_sync_noise [where noise = noise and st = st and bs = "0x5a # 0x5a # 0x5a # 0x5a # bs"]
  by (simp add: wait_sync_four)

lemma read_header_after_sync:
  assumes "read_length st \<le> 0" and "wait_sync 0 st = (Inr (), st')"
  shows "read_header st = read_header_fields st'"
  using assms by (simp add: read_header_def thn_def)

text \<open>
  Claim C6. When the input is any run of bytes other than \<^verbatim>\<open>0x5a\<close> followed by
  four bytes \<^verbatim>\<open>0x5a\<close>, the synchronization loop of \<^verbatim>\<open>_read_header\<close> consumes
  exactly that run and the four bytes, and \<^verbatim>\<open>_read_header\<close> goes on with the length
  field on what follows, whatever the run holds and however long it is. A byte other than
  \<^verbatim>\<open>0x5a\<close> sets the match counter back to zero.
\<close>

theorem read_header_synchronizes:
  "((\<forall>b \<in> set noise. b \<noteq> 0x5a) \<longrightarrow>
      wait_sync 0 (st\<lparr>rx := noise @ [0x5a, 0x5a, 0x5a, 0x5a] @ rest\<rparr>)
        = (Inr (), st\<lparr>rx := rest\<rparr>)
      \<and> (read_length st \<le> 0 \<longrightarrow>
           read_header (st\<lparr>rx := noise @ [0x5a, 0x5a, 0x5a, 0x5a] @ rest\<rparr>)
           = read_header_fields (st\<lparr>rx := rest\<rparr>)))
   \<and> (c < 4 \<and> b \<noteq> 0x5a \<longrightarrow>
        wait_sync c (st\<lparr>rx := b # bs\<rparr>) = wait_sync 0 (st\<lparr>rx := bs\<rparr>))"
proof (intro conjI impI)
  assume n: "\<forall>b \<in> set noise. b \<noteq> 0x5a"
  then show w: "wait_sync 0 (st\<lparr>rx := noise @ [0x5a, 0x5a, 0x5a, 0x5a] @ rest\<rparr>)
                = (Inr (), st\<lparr>rx := rest\<rparr>)"
    by (rule wait_sync_noise_four)
  assume "read_length st \<le> 0"
  then show "read_header (st\<lparr>rx := noise @ [0x5a, 0x5a, 0x5a, 0x5a] @ rest\<rparr>)
             = read_header_fields (st\<lparr>rx := rest\<rparr>)"
    using w by (intro read_header_after_sync) simp_all
next
  assume "c < 4 \<and> b \<noteq> 0x5a"
  then show "wait_sync c (st\<lparr>rx := b # bs\<rparr>) = wait_sync 0 (st\<lparr>rx := bs\<rparr>)"
    by (simp add: wait_sync_step)
qed

theorem read_header_synchronizes_witness:
  "wait_sync 0 ((init [])\<lparr>rx := [0x01, 0xff, 0x00] @ [0x5a, 0x5a, 0x5a, 0x5a] @ [0, 0, 0, 9, 7]\<rparr>)
     = (Inr (), (init [])\<lparr>rx := [0, 0, 0, 9, 7]\<rparr>)
   \<and> read_header ((init [])\<lparr>rx := [0x01, 0xff, 0x00] @ [0x5a, 0x5a, 0x5a, 0x5a] @ [0, 0, 0, 9, 7]\<rparr>)
     = read_header_fields ((init [])\<lparr>rx := [0, 0, 0, 9, 7]\<rparr>)
   \<and> wait_sync 2 ((init [])\<lparr>rx := [0x07, 0x5a]\<rparr>) = wait_sync 0 ((init [])\<lparr>rx := [0x5a]\<rparr>)"
  using read_header_synchronizes [where noise = "[0x01, 0xff, 0x00]" and st = "init []"
          and rest = "[0, 0, 0, 9, 7]" and c = 2 and b = "0x07" and bs = "[0x5a]"]
  by (simp add: init_def)

subsection \<open>Headers that declare less than a header\<close>

lemma transport_read_append:
  "rx st = bs @ rest \<Longrightarrow> n = int (length bs) \<Longrightarrow>
   transport_read n st = (Inr bs, st\<lparr>rx := rest\<rparr>)"
  by (simp add: transport_read_def)

lemma read_header_fields_short:
  assumes lb: "length lb = 4" and lo: "unpack_l lb \<noteq> 0" and hi: "unpack_l lb < 9"
    and rx: "rx st = lb @ [t] @ body"
  shows "read_header_fields st =
     (case d2h_of_value (uint t) of
        None \<Rightarrow>
          (Inl (ValueError_msgtype (uint t)), st\<lparr>read_length := unpack_l lb, rx := body\<rparr>)
      | Some ty \<Rightarrow>
          (Inl (IOError_header_overrun (unpack_l lb)),
           st\<lparr>read_type := Some ty, read_length := unpack_l lb, rx := body\<rparr>))"
proof -
  have r4: "transport_read 4 st = (Inr lb, st\<lparr>rx := t # body\<rparr>)"
    using rx lb by (intro transport_read_append) simp_all
  have r1: "transport_read 1 (st\<lparr>rx := t # body, read_length := unpack_l lb\<rparr>)
            = (Inr [t], st\<lparr>rx := body, read_length := unpack_l lb\<rparr>)"
    by (simp add: transport_read_def)
  show ?thesis
    using lo hi
    by (simp add: read_header_fields_def thn_def r4 r1 Let_def unpack_B_single
             split: option.splits)
qed

text \<open>
  Claim C5, as amended. For a header whose length field is between 1 and 8,
  \<^verbatim>\<open>_read_header\<close> fails with every byte after the type byte still unread: with
  the header overrun error when the type byte is the code of a device message, and with
  the error of the conversion \<^verbatim>\<open>_D2HMsgType(raw_type)\<close> when it is not, since the type
  is converted before the length is compared with 9.
\<close>

theorem read_header_short_length:
  assumes "read_length st \<le> 0"
    and "\<forall>b \<in> set noise. b \<noteq> 0x5a"
    and "length lb = 4" and "1 \<le> unpack_l lb" and "unpack_l lb \<le> 8"
    and "rx st = noise @ [0x5a, 0x5a, 0x5a, 0x5a] @ lb @ [t] @ body"
  shows "read_header st =
     (case d2h_of_value (uint t) of
        None \<Rightarrow>
          (Inl (ValueError_msgtype (uint t)), st\<lparr>read_length := unpack_l lb, rx := body\<rparr>)
      | Some ty \<Rightarrow>
          (Inl (IOError_header_overrun (unpack_l lb)),
           st\<lparr>read_type := Some ty, read_length := unpack_l lb, rx := body\<rparr>))"
proof -
  have st: "st = st\<lparr>rx := noise @ [0x5a, 0x5a, 0x5a, 0x5a] @ lb @ [t] @ body\<rparr>"
    using assms(6) by simp
  have "wait_sync 0 st = (Inr (), st\<lparr>rx := lb @ [t] @ body\<rparr>)"
    by (subst st) (rule wait_sync_noise_four [OF assms(2)])
  with assms(1) have "read_header st = read_header_fields (st\<lparr>rx := lb @ [t] @ body\<rparr>)"
    by (rule read_header_after_sync)
  also have "\<dots> =
     (case d2h_of_value (uint t) of
        None \<Rightarrow>
          (Inl (ValueError_msgtype (uint t)), st\<lparr>read_length := unpack_l lb, rx := body\<rparr>)
      | Some ty \<Rightarrow>
          (Inl (IOError_header_overrun (unpack_l lb)),
           st\<lparr>read_type := Some ty, read_length := unpack_l lb, rx := body\<rparr>))"
    using assms(3-5)
    by (subst read_header_fields_short [where lb = lb and t = t and body = body])
       (simp_all split: option.splits)
  finally show ?thesis .
qed

theorem read_header_short_length_witness:
  "read_header (init [0x00, 0x5a, 0x5a, 0x5a, 0x5a, 0, 0, 0, 8, 7, 0xaa])
     = (Inl (IOError_header_overrun 8),
        (init [0xaa])\<lparr>read_type := Some KERNEL_FINISHED, read_length := 8\<rparr>)
   \<and> read_header (init [0x00, 0x5a, 0x5a, 0x5a, 0x5a, 0, 0, 0, 8, 14, 0xaa])
     = (Inl (ValueError_msgtype 14), (init [0xaa])\<lparr>read_length := 8\<rparr>)"
  using read_header_short_length [where st = "init [0x00, 0x5a, 0x5a, 0x5a, 0x5a, 0, 0, 0, 8, 7, 0xaa]"
          and noise = "[0x00]" and lb = "[0, 0, 0, 8]" and t = 7 and body = "[0xaa]"]
        read_header_short_length [where st = "init [0x00, 0x5a, 0x5a, 0x5a, 0x5a, 0, 0, 0, 8, 14, 0xaa]"
          and noise = "[0x00]" and lb = "[0, 0, 0, 8]" and t = 14 and body = "[0xaa]"]
  by (simp add: init_def unpack_l_def be_uint_def d2h_of_value_def)

text \<open>
  Claim C5 as stated fails: with the length 5 and the unknown type code 0 the error is
  the one of the conversion, not the header overrun.
\<close>

theorem read_header_unknown_type_first:
  "fst (read_header (init [0x5a, 0x5a, 0x5a, 0x5a, 0, 0, 0, 5, 0])) = Inl (ValueError_msgtype 0)
   \<and> fst (read_header (init [0x5a, 0x5a, 0x5a, 0x5a, 0, 0, 0, 5, 0]))
      \<noteq> Inl (IOError_header_overrun 5)"
  by code_simp

subsection \<open>Chunks\<close>

text \<open>
  Claim C7. \<^verbatim>\<open>_read_chunk(n)\<close> with \<open>r\<close> bytes of the body remaining: when
  \<open>n > r\<close> it raises the overrun error and leaves the object and the transport as they
  were; otherwise whatever it returns is exactly \<open>n\<close> bytes, the next ones of the
  transport, and the remaining length is \<open>r - n\<close>. It does return them when the
  transport holds \<open>n\<close> bytes, and the only other outcome is the failure of the
  transport's own \<^verbatim>\<open>read\<close>.
\<close>

theorem read_chunk_contract:
  "(read_length st < n \<longrightarrow>
      read_chunk n st = (Inl (IOError_overrun n (read_length st) (read_type st)), st))
   \<and> (\<not> read_length st < n \<longrightarrow>
        (\<forall>bs st'. read_chunk n st = (Inr bs, st') \<longrightarrow>
           int (length bs) = n \<and> rx st = bs @ rx st' \<and> read_length st' = read_length st - n)
        \<and> (0 \<le> n \<and> n \<le> int (length (rx st)) \<longrightarrow>
             read_chunk n st
             = (Inr (take (nat n) (rx st)),
                st\<lparr>read_length := read_length st - n, rx := drop (nat n) (rx st)\<rparr>))
        \<and> (n < 0 \<or> int (length (rx st)) < n \<longrightarrow>
             read_chunk n st = (Inl TransportError, st\<lparr>read_length := read_length st - n\<rparr>)))"
  by (auto simp: read_chunk_def transport_read_def)

theorem read_chunk_contract_witness:
  "read_chunk 3 ((init [1, 2, 3, 4])\<lparr>read_length := 2\<rparr>)
     = (Inl (IOError_overrun 3 2 None), (init [1, 2, 3, 4])\<lparr>read_length := 2\<rparr>)
   \<and> read_chunk 2 ((init [1, 2, 3, 4])\<lparr>read_length := 2\<rparr>)
     = (Inr [1, 2], (init [3, 4])\<lparr>read_length := 0\<rparr>)
   \<and> read_chunk 2 ((init [1])\<lparr>read_length := 2\<rparr>)
     = (Inl TransportError, (init [1])\<lparr>read_length := 0\<rparr>)"
  using read_chunk_contract [where st = "(init [1, 2, 3, 4])\<lparr>read_length := 2\<rparr>" and n = 3]
        read_chunk_contract [where st = "(init [1, 2, 3, 4])\<lparr>read_length := 2\<rparr>" and n = 2]
        read_chunk_contract [where st = "(init [1])\<lparr>read_length := 2\<rparr>" and n = 2]
  by (simp add: init_def)

subsection \<open>The remaining length of the body\<close>

lemma keeps_nonneg_thn:
  assumes m: "keeps_nonneg m" and f: "\<And>x. keeps_nonneg (f x)"
  shows "keeps_nonneg (thn m f)"
  unfolding keeps_nonneg_def
proof (intro allI impI)
  fix st :: comm
  assume nn: "0 \<le> read_length st"
  obtain r st1 where r: "m st = (r, st1)" by (cases "m st")
  with m nn have nn1: "0 \<le> read_length st1" by (metis keeps_nonneg_def snd_conv)
  show "0 \<le> read_length (snd (thn m f st))"
  proof (cases r)
    case (Inl e)
    with r nn1 show ?thesis by (simp add: thn_def)
  next
    case (Inr x)
    from f [of x] nn1 have "0 \<le> read_length (snd (f x st1))" by (simp add: keeps_nonneg_def)
    with Inr r show ?thesis by (simp add: thn_def)
  qed
qed

lemma keeps_nonneg_ret: "keeps_nonneg (ret x)"
  by (simp add: keeps_nonneg_def ret_def)

lemma keeps_nonneg_raise: "keeps_nonneg (raise e)"
  by (simp add: keeps_nonneg_def raise_def)

lemma keeps_nonneg_read_chunk: "keeps_nonneg (read_chunk n)"
  by (simp add: keeps_nonneg_def read_chunk_def transport_read_def)

lemma keeps_nonneg_read_expect: "keeps_nonneg (read_expect ty)"
  by (simp add: keeps_nonneg_def read_expect_def)

lemmas keeps_nonneg_intros =
  keeps_nonneg_thn keeps_nonneg_ret keeps_nonneg_raise keeps_nonneg_read_chunk

lemma keeps_nonneg_read_int8: "keeps_nonneg read_int8"
  unfolding read_int8_def by (intro keeps_nonneg_intros)

lemma keeps_nonneg_read_int32: "keeps_nonneg read_int32"
  unfolding read_int32_def by (intro keeps_nonneg_intros)

lemma keeps_nonneg_read_int64: "keeps_nonneg read_int64"
  unfolding read_int64_def by (intro keeps_nonneg_intros)

lemma keeps_nonneg_read_float64: "keeps_nonneg read_float64"
  unfolding read_float64_def by (intro keeps_nonneg_intros)

lemma keeps_nonneg_read_bytes: "keeps_nonneg read_bytes"
  unfolding read_bytes_def by (intro keeps_nonneg_intros keeps_nonneg_read_int32)

lemma keeps_nonneg_read_string: "keeps_nonneg read_string"
  unfolding read_string_def
  by (intro keeps_nonneg_intros keeps_nonneg_read_bytes)
     (auto split: option.splits intro: keeps_nonneg_intros)

lemma read_header_fields_nonneg:
  "read_header_fields st = (Inr u, st') \<Longrightarrow> 0 \<le> read_length st'"
  by (auto simp: read_header_fields_def thn_def Let_def
           split: prod.splits sum.splits if_splits option.splits)

lemma read_header_nonneg:
  "read_header st = (Inr u, st') \<Longrightarrow> 0 \<le> read_length st'"
  by (auto simp: read_header_def split: if_splits dest!: thn_Inr read_header_fields_nonneg)

text \<open>
  Claim C10, as amended. \<^verbatim>\<open>_read_length\<close> is zero initially, it is not negative
  after \<^verbatim>\<open>_read_header\<close> or \<^verbatim>\<open>_read_empty\<close> has returned, and
  \<^verbatim>\<open>_read_chunk\<close>, \<^verbatim>\<open>_read_expect\<close> and the typed readers keep it from
  becoming negative whether they return or raise.
\<close>

theorem read_length_nonneg:
  "read_length (init input) = 0
   \<and> (read_header st = (Inr (), st') \<longrightarrow> 0 \<le> read_length st')
   \<and> (read_empty ty st = (Inr (), st') \<longrightarrow> 0 \<le> read_length st')
   \<and> (0 \<le> read_length st \<longrightarrow>
        0 \<le> read_length (snd (read_chunk n st))
        \<and> 0 \<le> read_length (snd (read_expect ty st))
        \<and> 0 \<le> read_length (snd (read_int8 st))
        \<and> 0 \<le> read_length (snd (read_int32 st))
        \<and> 0 \<le> read_length (snd (read_int64 st))
        \<and> 0 \<le> read_length (snd (read_float64 st))
        \<and> 0 \<le> read_length (snd (read_bytes st))
        \<and> 0 \<le> read_length (snd (read_string st)))"
proof (intro conjI impI)
  show "read_length (init input) = 0" by (simp add: init_def)
  show "0 \<le> read_length st'" if "read_header st = (Inr (), st')"
    using that by (rule read_header_nonneg)
  show "0 \<le> read_length st'" if "read_empty ty st = (Inr (), st')"
    using that
    by (auto simp: read_empty_def read_expect_def split: if_splits
             dest!: thn_Inr read_header_nonneg)
next
  assume nn: "0 \<le> read_length st"
  show "0 \<le> read_length (snd (read_chunk n st))"
    using keeps_nonneg_read_chunk nn by (simp add: keeps_nonneg_def)
  show "0 \<le> read_length (snd (read_expect ty st))"
    using keeps_nonneg_read_expect nn by (simp add: keeps_nonneg_def)
  show "0 \<le> read_length (snd (read_int8 st))"
    using keeps_nonneg_read_int8 nn by (simp add: keeps_nonneg_def)
  show "0 \<le> read_length (snd (read_int32 st))"
    using keeps_nonneg_read_int32 nn by (simp add: keeps_nonneg_def)
  show "0 \<le> read_length (snd (read_int64 st))"
    using keeps_nonneg_read_int64 nn by (simp add: keeps_nonneg_def)
  show "0 \<le> read_length (snd (read_float64 st))"
    using keeps_nonneg_read_float64 nn by (simp add: keeps_nonneg_def)
  show "0 \<le> read_length (snd (read_bytes st))"
    using keeps_nonneg_read_bytes nn by (simp add: keeps_nonneg_def)
  show "0 \<le> read_length (snd (read_string st))"
    using keeps_nonneg_read_string nn by (simp add: keeps_nonneg_def)
qed

lemma read_header_frame_finished:
  "read_header (init frame_finished)
   = (Inr (), (init [0xff, 0xff, 0xff])\<lparr>read_type := Some KERNEL_FINISHED, read_length := 3\<rparr>)"
  by code_simp

theorem read_length_nonneg_witness:
  "0 \<le> read_length ((init [0xff, 0xff, 0xff])\<lparr>read_type := Some KERNEL_FINISHED, read_length := 3\<rparr>)
   \<and> 0 \<le> read_length (snd (read_chunk 2 ((init [0xff, 0xff, 0xff])\<lparr>read_length := 3\<rparr>)))
   \<and> 0 \<le> read_length (snd (read_bytes ((init [0xff, 0xff, 0xff, 0xff])\<lparr>read_length := 4\<rparr>)))"
  using read_length_nonneg [where st = "init frame_finished"
          and st' = "(init [0xff, 0xff, 0xff])\<lparr>read_type := Some KERNEL_FINISHED, read_length := 3\<rparr>"]
        read_length_nonneg [where st = "(init [0xff, 0xff, 0xff])\<lparr>read_length := 3\<rparr>" and n = 2]
        read_length_nonneg [where st = "(init [0xff, 0xff, 0xff, 0xff])\<lparr>read_length := 4\<rparr>"]
  by (simp add: read_header_frame_finished)

text \<open>
  Claim C10 as stated fails: \<^verbatim>\<open>_read_header\<close> stores the length field in
  \<^verbatim>\<open>_read_length\<close> before it checks it, so a header that declares the length -1
  leaves -1 there when the header overrun is raised.
\<close>

theorem read_header_failure_negative_length:
  "fst (read_header (init [0x5a, 0x5a, 0x5a, 0x5a, 0xff, 0xff, 0xff, 0xff, 7]))
     = Inl (IOError_header_overrun (- 1))
   \<and> read_length (snd (read_header (init [0x5a, 0x5a, 0x5a, 0x5a, 0xff, 0xff, 0xff, 0xff, 7]))) = - 1
   \<and> \<not> 0 \<le> read_length (snd (read_header (init [0x5a, 0x5a, 0x5a, 0x5a, 0xff, 0xff, 0xff, 0xff, 7])))"
  by code_simp

section \<open>The frame writer\<close>

subsection \<open>Packing and unpacking agree\<close>

lemma be_bytes_Suc: "be_bytes (Suc n) v = be_bytes n (v div 256) @ [word_of_int v]"
proof -
  have "map (\<lambda>i. word_of_int (v div 256 ^ (Suc n - 1 - i)) :: byte) [0..<n]
        = map (\<lambda>i. word_of_int (v div 256 div 256 ^ (n - 1 - i))) [0..<n]"
  proof (rule map_cong [OF refl])
    fix i assume "i \<in> set [0..<n]"
    then have "Suc n - 1 - i = Suc (n - 1 - i)" by auto
    then show "(word_of_int (v div 256 ^ (Suc n - 1 - i)) :: byte)
               = word_of_int (v div 256 div 256 ^ (n - 1 - i))"
      by (simp add: zdiv_zmult2_eq)
  qed
  then show ?thesis by (simp add: be_bytes_def)
qed

lemma be_uint_snoc: "be_uint (bs @ [b]) = be_uint bs * 256 + uint b"
  by (simp add: be_uint_def)

lemma be_uint_be_bytes: "be_uint (be_bytes n v) = v mod 256 ^ n"
proof (induction n arbitrary: v)
  case 0
  show ?case by (simp add: be_bytes_def be_uint_def)
next
  case (Suc n)
  have "be_uint (be_bytes (Suc n) v) = (v div 256) mod 256 ^ n * 256 + v mod 256"
    by (simp add: be_bytes_Suc be_uint_snoc Suc uint_word_of_int)
  also have "\<dots> = v mod 256 ^ Suc n"
    by (simp add: zmod_zmult2_eq)
  finally show ?case .
qed

lemma length_be_bytes: "length (be_bytes n v) = n"
  by (simp add: be_bytes_def)

lemma unpack_l_be_bytes:
  assumes "- (2 ^ 31) \<le> v" and "v \<le> 2 ^ 31 - 1"
  shows "unpack_l (be_bytes 4 v) = v"
proof (cases "0 \<le> v")
  case True
  with assms have "v mod 2 ^ 32 = v" by simp
  with True assms show ?thesis by (simp add: unpack_l_def be_uint_be_bytes Let_def)
next
  case False
  have "(v + 2 ^ 32) mod 2 ^ 32 = v + 2 ^ 32"
    using False assms by (intro mod_pos_pos_trivial) simp_all
  then have "v mod 2 ^ 32 = v + 2 ^ 32"
    by (simp only: mod_add_self2)
  with False assms show ?thesis by (simp add: unpack_l_def be_uint_be_bytes Let_def)
qed

lemma unpack_q_be_bytes:
  assumes "- (2 ^ 63) \<le> v" and "v \<le> 2 ^ 63 - 1"
  shows "unpack_q (be_bytes 8 v) = v"
proof (cases "0 \<le> v")
  case True
  with assms have "v mod 2 ^ 64 = v" by simp
  with True assms show ?thesis by (simp add: unpack_q_def be_uint_be_bytes Let_def)
next
  case False
  have "(v + 2 ^ 64) mod 2 ^ 64 = v + 2 ^ 64"
    using False assms by (intro mod_pos_pos_trivial) simp_all
  then have "v mod 2 ^ 64 = v + 2 ^ 64"
    by (simp only: mod_add_self2)
  with False assms show ?thesis by (simp add: unpack_q_def be_uint_be_bytes Let_def)
qed

lemma write_all_eq: "write_all chunks st = (Inr (), st\<lparr>tx := tx st @ chunks\<rparr>)"
  by (induction chunks arbitrary: st) (simp_all add: ret_def thn_def transport_write_def)

lemma be_bytes_sync: "be_bytes 4 0x5a5a5a5a = [0x5a, 0x5a, 0x5a, 0x5a]"
  by (simp add: be_bytes_def upt_rec)  

lemma h2d_value_range: "1 \<le> h2d_value k \<and> h2d_value k \<le> 11"
  by (cases k) simp_all

subsection \<open>Flushing\<close>

lemma buffered_nonneg: "0 \<le> buffered st"
proof -
  have "0 \<le> sum_list (map (\<lambda>chunk. int (length chunk)) chunks)" for chunks :: "byte list list"
    by (induction chunks) simp_all
  then show ?thesis by (simp add: buffered_def)
qed

text \<open>
  Claim C3, as amended. With a message kind \<open>k\<close> set and chunks whose total length
  plus 9 fits a signed 32-bit integer, \<^verbatim>\<open>_write_flush\<close> writes the four bytes
  \<^verbatim>\<open>5a 5a 5a 5a\<close>, the four bytes of the big-endian total length plus 9 and the
  byte of the kind code in one call of \<^verbatim>\<open>write\<close>, then every chunk in order, one
  call each; the buffer is left as it was. With a longer buffer the packing fails and
  nothing is written.
\<close>

theorem write_flush_frame:
  "(write_type st = Some k \<and> 9 + buffered st \<le> 2 ^ 31 - 1 \<longrightarrow>
      (\<exists>len4 kind.
         length len4 = 4 \<and> unpack_l len4 = 9 + buffered st \<and> uint kind = h2d_value k
         \<and> write_flush st
           = (Inr (),
              st\<lparr>tx := tx st @ ([0x5a, 0x5a, 0x5a, 0x5a] @ len4 @ [kind]) # write_buffer st\<rparr>))
      \<and> write_buffer (snd (write_flush st)) = write_buffer st)
   \<and> (write_type st = Some k \<and> 2 ^ 31 - 1 < 9 + buffered st \<longrightarrow>
        write_flush st = (Inl StructError, st))"
proof (intro conjI impI)
  assume a: "write_type st = Some k \<and> 9 + buffered st \<le> 2 ^ 31 - 1"
  let ?len4 = "be_bytes 4 (9 + buffered st)"
  let ?kind = "word_of_int (h2d_value k) :: byte"
  have rng: "- (2 ^ 31) \<le> 9 + buffered st"
    using buffered_nonneg [of st] by simp
  have k: "1 \<le> h2d_value k \<and> h2d_value k \<le> 11" by (rule h2d_value_range)
  have hdr: "pack_llB 0x5a5a5a5a (9 + buffered st) (h2d_value k)
             = Inr ([0x5a, 0x5a, 0x5a, 0x5a] @ ?len4 @ [?kind])"
    using a rng k be_bytes_sync
    by (simp add: pack_llB_def pack_l_def pack_B_def be_bytes_Suc [of 0] be_bytes_def [of 0])
  have fl: "write_flush st
            = (Inr (),
               st\<lparr>tx := tx st @ ([0x5a, 0x5a, 0x5a, 0x5a] @ ?len4 @ [?kind]) # write_buffer st\<rparr>)"
    using a hdr
    by (simp add: write_flush_def Let_def thn_def transport_write_def write_all_eq
             buffered_def)
  have "length ?len4 = 4" by (rule length_be_bytes)
  moreover have "unpack_l ?len4 = 9 + buffered st"
    using rng a by (intro unpack_l_be_bytes) simp_all
  moreover have "uint ?kind = h2d_value k"
    using k by (simp add: uint_word_of_int)
  ultimately show "\<exists>len4 kind.
         length len4 = 4 \<and> unpack_l len4 = 9 + buffered st \<and> uint kind = h2d_value k
         \<and> write_flush st
           = (Inr (),
              st\<lparr>tx := tx st @ ([0x5a, 0x5a, 0x5a, 0x5a] @ len4 @ [kind]) # write_buffer st\<rparr>)"
    using fl by blast
  show "write_buffer (snd (write_flush st)) = write_buffer st"
    by (simp add: fl)
next
  assume a: "write_type st = Some k \<and> 2 ^ 31 - 1 < 9 + buffered st"
  have "pack_llB 0x5a5a5a5a (9 + buffered st) (h2d_value k) = Inl StructError"
    using a by (simp add: pack_llB_def pack_l_def)
  then show "write_flush st = (Inl StructError, st)"
    using a by (simp add: write_flush_def Let_def buffered_def)
qed

theorem write_flush_frame_witness:
  "write_flush pending
     = (Inr (),
        pending\<lparr>tx := [[0x5a, 0x5a, 0x5a, 0x5a, 0, 0, 0, 13, 6], [0, 0], [0, 7]]\<rparr>)
   \<and> write_buffer (snd (write_flush pending)) = [[0, 0], [0, 7]]"
proof -
  have b: "buffered pending = 4" by (simp add: buffered_def pending_def)
  then have pre: "write_type pending = Some RPC_REPLY \<and> 9 + buffered pending \<le> 2 ^ 31 - 1"
    by (simp add: pending_def)
  with write_flush_frame [where st = pending and k = RPC_REPLY]
  have wb: "write_buffer (snd (write_flush pending)) = write_buffer pending"
    by blast
  have "write_flush pending
     = (Inr (),
        pending\<lparr>tx := [[0x5a, 0x5a, 0x5a, 0x5a, 0, 0, 0, 13, 6], [0, 0], [0, 7]]\<rparr>)"
    by code_simp
  with wb show ?thesis by (simp add: pending_def)
qed

text \<open>
  Claim C3 as stated fails: after a flush the buffer still holds its chunks (it is
  emptied by the next \<^verbatim>\<open>_write_header\<close>), and a buffer of \<open>2\<^sup>3\<^sup>1\<close> bytes
  is not written at all.
\<close>

theorem write_flush_keeps_buffer:
  "write_buffer (snd (write_flush
      ((init [])\<lparr>write_type := Some RUN_KERNEL, write_buffer := [[1, 2]]\<rparr>))) = [[1, 2]]
   \<and> write_buffer (snd (write_flush
      ((init [])\<lparr>write_type := Some RUN_KERNEL, write_buffer := [[1, 2]]\<rparr>))) \<noteq> []
   \<and> fst (write_flush
      ((init [])\<lparr>write_type := Some LOAD_LIBRARY, write_buffer := [replicate (2 ^ 31) 0]\<rparr>))
     = Inl StructError"
proof (intro conjI)
  show "write_buffer (snd (write_flush
      ((init [])\<lparr>write_type := Some RUN_KERNEL, write_buffer := [[1, 2]]\<rparr>))) = [[1, 2]]"
    by code_simp
  then show "write_buffer (snd (write_flush
      ((init [])\<lparr>write_type := Some RUN_KERNEL, write_buffer := [[1, 2]]\<rparr>))) \<noteq> []"
    by simp
  show "fst (write_flush
      ((init [])\<lparr>write_type := Some LOAD_LIBRARY, write_buffer := [replicate (2 ^ 31) 0]\<rparr>))
     = Inl StructError"
    by (simp add: write_flush_def Let_def init_def pack_llB_def pack_l_def)
qed

section \<open>The RPC value decoder\<close>

subsection \<open>Rationals\<close>

lemma read_chunk_append:
  assumes "rx st = bs @ rest" and "n = int (length bs)" and "n \<le> read_length st"
  shows "read_chunk n st = (Inr bs, st\<lparr>read_length := read_length st - n, rx := rest\<rparr>)"
  using assms by (simp add: read_chunk_def transport_read_def)

lemma read_int8_cons:
  assumes "rx st = b # rest" and "1 \<le> read_length st"
  shows "read_int8 st = (Inr (uint b), st\<lparr>read_length := read_length st - 1, rx := rest\<rparr>)"
  using read_chunk_append [of st "[b]" rest 1] assms
  by (simp add: read_int8_def thn_def ret_def unpack_B_single)

lemma read_int32_append:
  assumes "rx st = bs @ rest" and "length bs = 4" and "4 \<le> read_length st"
  shows "read_int32 st
         = (Inr (unpack_l bs), st\<lparr>read_length := read_length st - 4, rx := rest\<rparr>)"
  using read_chunk_append [of st bs rest 4] assms
  by (simp add: read_int32_def thn_def ret_def)

lemma read_int64_append:
  assumes "rx st = bs @ rest" and "length bs = 8" and "8 \<le> read_length st"
  shows "read_int64 st
         = (Inr (unpack_q bs), st\<lparr>read_length := read_length st - 8, rx := rest\<rparr>)"
  using read_chunk_append [of st bs rest 8] assms
  by (simp add: read_int64_def thn_def ret_def)

lemma receive_rpc_value_tag:
  assumes "rx st = b # rest" and "1 \<le> read_length st"
  shows "receive_rpc_value env st
         = receive_rpc_tagged env (\<lambda>k. receive_rpc_value_frames env (nesting_room env - k))
             (uint b) (st\<lparr>read_length := read_length st - 1, rx := rest\<rparr>)"
  using read_int8_cons [OF assms]
  by (simp add: receive_rpc_value_def thn_def)

lemma Fraction_lowest_terms:
  assumes "d \<noteq> 0"
  shows "\<exists>p q. Fraction n d = Inr (VFraction p q) \<and> 0 < q \<and> coprime p q \<and> p * d = n * q"
proof -
  define g where "g = (if d < 0 then - gcd n d else gcd n d)"
  have g0: "gcd n d \<noteq> 0" using assms by simp
  have gn: "g dvd n" and gd: "g dvd d" by (simp_all add: g_def)
  have fr: "Fraction n d = Inr (VFraction (n div g) (d div g))"
    using assms by (simp add: Fraction_def g_def Let_def)
  have pos: "0 < d div g"
  proof (cases "d < 0")
    case True
    then have "d div g = (- d) div gcd n d" by (simp add: g_def div_minus_right)
    moreover have "0 < (- d) div gcd n d"
      using True g0 by (intro pos_imp_zdiv_pos_iff [THEN iffD2])
                        (auto intro!: zdvd_imp_le simp: less_le)
    ultimately show ?thesis by simp
  next
    case False
    with assms have dp: "0 < d" by simp
    then have "0 < d div gcd n d"
      using g0 by (intro pos_imp_zdiv_pos_iff [THEN iffD2])
                  (auto intro!: zdvd_imp_le simp: less_le)
    with False show ?thesis by (simp add: g_def)
  qed
  have cop: "coprime (n div g) (d div g)"
  proof (cases "d < 0")
    case True
    have "coprime (n div gcd n d) (d div gcd n d)"
      using assms by (intro div_gcd_coprime) simp
    then have "coprime (- (n div gcd n d)) (- (d div gcd n d))" by simp
    moreover have "n div g = - (n div gcd n d)" "d div g = - (d div gcd n d)"
      using True by (simp_all add: g_def dvd_div_neg)
    ultimately show ?thesis by simp
  next
    case False
    then show ?thesis using assms by (simp add: g_def div_gcd_coprime)
  qed
  have "n div g * d = n * (d div g)"
    using gn gd by (metis div_mult_swap dvd_div_mult mult.commute)
  with fr pos cop show ?thesis by blast
qed

text \<open>
  Claim C4, as amended. For a value with the tag \<^verbatim>\<open>F\<close> that carries the 64-bit
  integers \<open>n\<close> and \<open>d\<close>: when \<open>d\<close> is zero the decoder raises
  \<^verbatim>\<open>ZeroDivisionError\<close>, having read both; otherwise it returns the rational
  \<open>n / d\<close> in lowest terms with a positive denominator, as the constructor
  \<^verbatim>\<open>Fraction\<close> normalises it.
\<close>

theorem receive_rpc_value_fraction:
  assumes "- (2 ^ 63) \<le> n" "n \<le> 2 ^ 63 - 1" "- (2 ^ 63) \<le> d" "d \<le> 2 ^ 63 - 1"
    and "rx st = [0x46] @ be_bytes 8 n @ be_bytes 8 d @ rest"
    and "17 \<le> read_length st"
  shows "(d = 0 \<longrightarrow>
            receive_rpc_value env st
            = (Inl ZeroDivisionError, st\<lparr>read_length := read_length st - 17, rx := rest\<rparr>))
         \<and> (d \<noteq> 0 \<longrightarrow>
              (\<exists>p q. receive_rpc_value env st
                       = (Inr (VFraction p q),
                          st\<lparr>read_length := read_length st - 17, rx := rest\<rparr>)
                     \<and> 0 < q \<and> coprime p q \<and> p * d = n * q))"
proof -
  let ?st1 = "st\<lparr>read_length := read_length st - 1, rx := be_bytes 8 n @ be_bytes 8 d @ rest\<rparr>"
  let ?st2 = "st\<lparr>read_length := read_length st - 9, rx := be_bytes 8 d @ rest\<rparr>"
  let ?st3 = "st\<lparr>read_length := read_length st - 17, rx := rest\<rparr>"
  have n: "read_int64 ?st1 = (Inr n, ?st2)"
    using read_int64_append [of ?st1 "be_bytes 8 n" "be_bytes 8 d @ rest"] assms
    by (simp add: length_be_bytes unpack_q_be_bytes)
  have d: "read_int64 ?st2 = (Inr d, ?st3)"
    using read_int64_append [of ?st2 "be_bytes 8 d" rest] assms
    by (simp add: length_be_bytes unpack_q_be_bytes)
  have "receive_rpc_value env st
        = receive_rpc_tagged env (\<lambda>k. receive_rpc_value_frames env (nesting_room env - k))
            0x46 ?st1"
    using receive_rpc_value_tag [of st "0x46" "be_bytes 8 n @ be_bytes 8 d @ rest" env] assms
    by simp
  also have "\<dots> = lift (Fraction n d) ?st3"
    by (simp add: receive_rpc_tagged_def thn_def n d)
  finally have v: "receive_rpc_value env st = lift (Fraction n d) ?st3" .
  show ?thesis
  proof (intro conjI impI)
    assume "d = 0"
    with v show "receive_rpc_value env st = (Inl ZeroDivisionError, ?st3)"
      by (simp add: Fraction_def lift_def raise_def)
  next
    assume "d \<noteq> 0"
    then obtain p q where "Fraction n d = Inr (VFraction p q)" "0 < q" "coprime p q"
      "p * d = n * q"
      using Fraction_lowest_terms by blast
    with v show "\<exists>p q. receive_rpc_value env st = (Inr (VFraction p q), ?st3)
                   \<and> 0 < q \<and> coprime p q \<and> p * d = n * q"
      by (auto simp: lift_def ret_def)
  qed
qed

theorem receive_rpc_value_fraction_witness:
  "(\<exists>p q. receive_rpc_value no_services
             ((init ([0x46] @ be_bytes 8 2 @ be_bytes 8 4 @ [0]))\<lparr>read_length := 18\<rparr>)
           = (Inr (VFraction p q), (init [0])\<lparr>read_length := 1\<rparr>)
         \<and> 0 < q \<and> coprime p q \<and> p * 4 = 2 * q)
   \<and> receive_rpc_value no_services
        ((init ([0x46] @ be_bytes 8 1 @ be_bytes 8 0 @ [0]))\<lparr>read_length := 18\<rparr>)
      = (Inl ZeroDivisionError, (init [0])\<lparr>read_length := 1\<rparr>)"
  using receive_rpc_value_fraction [where n = 2 and d = 4 and rest = "[0]" and env = no_services
          and st = "(init ([0x46] @ be_bytes 8 2 @ be_bytes 8 4 @ [0]))\<lparr>read_length := 18\<rparr>"]
        receive_rpc_value_fraction [where n = 1 and d = 0 and rest = "[0]" and env = no_services
          and st = "(init ([0x46] @ be_bytes 8 1 @ be_bytes 8 0 @ [0]))\<lparr>read_length := 18\<rparr>"]
  by (simp add: init_def)

text \<open>
  Claim C4 as stated fails: the pair (2, 4) is decoded as the rational 1/2, not kept
  as it was received, and the pair (1, 0) raises \<^verbatim>\<open>ZeroDivisionError\<close>.
\<close>

theorem receive_rpc_value_fraction_reduces:
  "fst (receive_rpc_value no_services
          ((init [0x46, 0, 0, 0, 0, 0, 0, 0, 2, 0, 0, 0, 0, 0, 0, 0, 4])\<lparr>read_length := 17\<rparr>))
     = Inr (VFraction 1 2)
   \<and> fst (receive_rpc_value no_services
          ((init [0x46, 0, 0, 0, 0, 0, 0, 0, 2, 0, 0, 0, 0, 0, 0, 0, 4])\<lparr>read_length := 17\<rparr>))
     \<noteq> Inr (VFraction 2 4)
   \<and> fst (receive_rpc_value no_services
          ((init [0x46, 0, 0, 0, 0, 0, 0, 0, 1, 0, 0, 0, 0, 0, 0, 0, 0])\<lparr>read_length := 17\<rparr>))
     = Inl ZeroDivisionError"
  by code_simp

subsection \<open>Strings\<close>

text \<open>
  Decoding gives back the string that was encoded. The bytes of a code point are
  its digits in base 64, so the proof goes digit by digit.
\<close>

lemma div_4096: "(c::nat) div 4096 = c div 64 div 64"
  using div_mult2_eq [of c 64 64] by simp

lemma div_262144: "(c::nat) div 262144 = c div 4096 div 64"
  using div_mult2_eq [of c 4096 64] by simp

lemma three_digits: "(c::nat) div 4096 * 4096 + c div 64 mod 64 * 64 + c mod 64 = c"
proof -
  have "c div 64 div 64 * 64 + c div 64 mod 64 = c div 64" by simp
  then have "(c div 4096 * 64 + c div 64 mod 64) * 64 + c mod 64 = c"
    by (simp add: div_4096)
  then show ?thesis by (simp add: algebra_simps)
qed

lemma four_digits: "(c::nat) div 262144 * 262144 + c div 4096 mod 64 * 4096 + c div 64 mod 64 * 64 + c mod 64 = c"
proof -
  have "c div 4096 div 64 * 64 + c div 4096 mod 64 = c div 4096" by simp
  then have "(c div 262144 * 64 + c div 4096 mod 64) * 4096 = c div 4096 * 4096"
    by (simp add: div_262144)
  then have "c div 262144 * 262144 + c div 4096 mod 64 * 4096 = c div 4096 * 4096"
    by (simp add: algebra_simps)
  with three_digits [of c] show ?thesis by simp
qed

lemma digit_64: "(q::nat) div 64 = a \<Longrightarrow> q = a * 64 + q mod 64"
  by auto

lemma three_digits_lower: "(2048::nat) \<le> c \<Longrightarrow> c div 4096 = 0 \<Longrightarrow> 32 \<le> c div 64 mod 64"
proof -
  assume a: "2048 \<le> c" "c div 4096 = 0"
  then have "c div 64 div 64 = 0" by (simp add: div_4096)
  from digit_64 [OF this] have "c div 64 mod 64 = c div 64" by simp
  moreover from a have "32 \<le> c div 64" by simp
  ultimately show ?thesis by simp
qed

lemma three_digits_upper:
  "\<not> (55296 \<le> c \<and> c \<le> 57343) \<Longrightarrow> (c::nat) div 4096 = 13 \<Longrightarrow> c div 64 mod 64 \<le> 31"
proof -
  assume a: "\<not> (55296 \<le> c \<and> c \<le> 57343)" "c div 4096 = 13"
  then have "c div 64 div 64 = 13" by (simp add: div_4096)
  from digit_64 [OF this] have q: "c div 64 = 832 + c div 64 mod 64" by simp
  have "c < Suc (c div 4096) * 4096" by (simp add: dividend_less_div_times)
  with a have "c < 55296" by simp
  then have "c div 64 < 864" by simp
  with q show ?thesis by linarith
qed

lemma four_digits_lower: "(65536::nat) \<le> c \<Longrightarrow> c div 262144 = 0 \<Longrightarrow> 16 \<le> c div 4096 mod 64"
proof -
  assume a: "65536 \<le> c" "c div 262144 = 0"
  then have "c div 4096 div 64 = 0" by (simp add: div_262144)
  from digit_64 [OF this] have "c div 4096 mod 64 = c div 4096" by simp
  moreover from a have "16 \<le> c div 4096" by simp
  ultimately show ?thesis by simp
qed

lemma four_digits_upper: "c < (1114112::nat) \<Longrightarrow> c div 262144 = 4 \<Longrightarrow> c div 4096 mod 64 \<le> 15"
proof -
  assume a: "c < 1114112" "c div 262144 = 4"
  then have "c div 4096 div 64 = 4" by (simp add: div_262144)
  from digit_64 [OF this] have q: "c div 4096 = 256 + c div 4096 mod 64" by simp
  from a have "c div 4096 < 272" by simp
  with q show ?thesis by linarith
qed

lemma unat_byte: "n < 256 \<Longrightarrow> unat (of_nat n :: byte) = n"
  by (simp add: unat_of_nat)

lemma mod_64_le: "(c::nat) mod 64 \<le> 63"
  using mod_less_divisor [of 64 c] by simp

lemma unat_cont: "unat (of_nat (0x80 + c mod 64) :: byte) = 0x80 + c mod 64"
  using mod_64_le [of c] by (intro unat_byte) simp

lemma cont_byte: "cont (of_nat (0x80 + c mod 64))"
  unfolding cont_def unat_cont using mod_64_le [of c] by simp

lemma utf8_decode_1:
  assumes "c < 0x80"
  shows "utf8_decode (of_nat c # r) = map_option (Cons c) (utf8_decode r)"
  using assms by (simp add: unat_byte Let_def)

lemma utf8_decode_2:
  assumes "0x80 \<le> c" and "c < 0x800"
  shows "utf8_decode (of_nat (0xC0 + c div 64) # of_nat (0x80 + c mod 64) # r)
         = map_option (Cons c) (utf8_decode r)"
proof -
  have d: "2 \<le> c div 64" "c div 64 \<le> 31" using assms by auto
  have a: "unat (of_nat (0xC0 + c div 64) :: byte) = 0xC0 + c div 64"
    using d by (intro unat_byte) simp
  show ?thesis
    using d by (simp add: a unat_cont cont_byte Let_def del: of_nat_add of_nat_numeral)
qed

lemma utf8_decode_3:
  assumes "0x800 \<le> c" and "c < 0x10000" and "\<not> (0xD800 \<le> c \<and> c \<le> 0xDFFF)"
  shows "utf8_decode (of_nat (0xE0 + c div 4096) # of_nat (0x80 + c div 64 mod 64)
                      # of_nat (0x80 + c mod 64) # r)
         = map_option (Cons c) (utf8_decode r)"
proof -
  have d: "c div 4096 \<le> 15" using assms by auto
  have a: "unat (of_nat (0xE0 + c div 4096) :: byte) = 0xE0 + c div 4096"
    using d by (intro unat_byte) simp
  have lo: "c div 4096 = 0 \<Longrightarrow> 32 \<le> c div 64 mod 64" using assms three_digits_lower by simp
  have hi: "c div 4096 = 13 \<Longrightarrow> c div 64 mod 64 \<le> 31" using assms three_digits_upper by simp
  have lt: "c div 4096 = 0 \<Longrightarrow> c div 64 \<le> 63"
    unfolding div_4096 by (simp add: div_eq_0_iff)
  show ?thesis
    using d mod_64_le [of "c div 64"] lo hi lt three_digits [of c]
    by (simp add: a unat_cont cont_byte Let_def del: of_nat_add of_nat_numeral)
qed

lemma utf8_decode_4:
  assumes "0x10000 \<le> c" and "c < 0x110000"
  shows "utf8_decode (of_nat (0xF0 + c div 262144) # of_nat (0x80 + c div 4096 mod 64)
                      # of_nat (0x80 + c div 64 mod 64) # of_nat (0x80 + c mod 64) # r)
         = map_option (Cons c) (utf8_decode r)"
proof -
  have d: "c div 262144 \<le> 4" using assms by auto
  have a: "unat (of_nat (0xF0 + c div 262144) :: byte) = 0xF0 + c div 262144"
    using d by (intro unat_byte) simp
  have lo: "c div 262144 = 0 \<Longrightarrow> 16 \<le> c div 4096 mod 64" using assms four_digits_lower by simp
  have hi: "c div 262144 = 4 \<Longrightarrow> c div 4096 mod 64 \<le> 15" using assms four_digits_upper by simp
  have lt: "c div 262144 = 0 \<Longrightarrow> c div 4096 \<le> 63"
    unfolding div_262144 by (simp add: div_eq_0_iff)
  show ?thesis
    using d mod_64_le [of "c div 4096"] mod_64_le [of "c div 64"] lo hi lt four_digits [of c]
    by (simp add: a unat_cont cont_byte Let_def del: of_nat_add of_nat_numeral)
qed

lemma utf8_decode_encode: "utf8_encode s = Some bs \<Longrightarrow> utf8_decode bs = Some s"
proof (induction s arbitrary: bs)
  case Nil
  then show ?case by simp
next
  case (Cons c cs)
  from Cons.prems obtain r where r: "utf8_encode cs = Some r"
    by (auto split: if_splits)
  note ih = Cons.IH [OF r]
  consider "c < 0x80" | "0x80 \<le> c" "c < 0x800"
    | "0x800 \<le> c" "c < 0x10000" | "0x10000 \<le> c" "c < 0x110000" | "0x110000 \<le> c"
    by linarith
  then show ?case
  proof cases
    case 1
    with Cons.prems r have "bs = of_nat c # r" by simp
    with 1 ih show ?thesis by (simp only: utf8_decode_1 option.map)
  next
    case 2
    with Cons.prems r have "bs = of_nat (0xC0 + c div 64) # of_nat (0x80 + c mod 64) # r"
      by (simp del: of_nat_add of_nat_numeral)
    with 2 ih show ?thesis by (simp only: utf8_decode_2 option.map)
  next
    case 3
    with Cons.prems r have ns: "\<not> (0xD800 \<le> c \<and> c \<le> 0xDFFF)" by (auto split: if_splits)
    with 3 Cons.prems r
    have "bs = of_nat (0xE0 + c div 4096) # of_nat (0x80 + c div 64 mod 64)
                 # of_nat (0x80 + c mod 64) # r"
      by (simp del: of_nat_add of_nat_numeral)
    with utf8_decode_3 [OF 3 ns, of r] ih show ?thesis by (simp only: option.map)
  next
    case 4
    with Cons.prems r
    have "bs = of_nat (0xF0 + c div 262144) # of_nat (0x80 + c div 4096 mod 64)
                 # of_nat (0x80 + c div 64 mod 64) # of_nat (0x80 + c mod 64) # r"
      by (simp del: of_nat_add of_nat_numeral)
    with 4 ih show ?thesis by (simp only: utf8_decode_4 option.map)
  next
    case 5
    with Cons.prems show ?thesis by simp
  qed
qed

subsection \<open>One value\<close>

text \<open>
  The readers on an input that starts with what they read, and the decoder on an
  input that starts with the encoding of a value: it returns the value's Python
  value and has read exactly the encoding.
\<close>

lemma advance_simps:
  "rx (advance n rest st) = rest"
  "read_length (advance n rest st) = read_length st - int n"
  "advance m rest' (advance n rest st) = advance (n + m) rest' st"
  by (simp_all add: advance_def)

lemma uint_byte: "n < 256 \<Longrightarrow> uint (of_nat n :: byte) = int n"
  by (simp add: uint_nat unat_byte)

lemma read_int8_adv:
  assumes "rx st = b # rest" and "1 \<le> read_length st"
  shows "read_int8 st = (Inr (uint b), advance 1 rest st)"
  using read_int8_cons [OF assms] by (simp add: advance_def)

lemma read_int32_adv:
  assumes "rx st = be_bytes 4 i @ rest" and "int32 i" and "4 \<le> read_length st"
  shows "read_int32 st = (Inr i, advance 4 rest st)"
  using read_int32_append [of st "be_bytes 4 i" rest] assms
  by (simp add: advance_def length_be_bytes unpack_l_be_bytes int32_def)

lemma read_int64_adv:
  assumes "rx st = be_bytes 8 i @ rest" and "int64 i" and "8 \<le> read_length st"
  shows "read_int64 st = (Inr i, advance 8 rest st)"
  using read_int64_append [of st "be_bytes 8 i" rest] assms
  by (simp add: advance_def length_be_bytes unpack_q_be_bytes int64_def)

lemma read_chunk_adv:
  assumes "rx st = bs @ rest" and "int (length bs) \<le> read_length st"
  shows "read_chunk (int (length bs)) st = (Inr bs, advance (length bs) rest st)"
  using read_chunk_append [of st bs rest "int (length bs)"] assms
  by (simp add: advance_def)

lemma read_string_adv:
  assumes e: "utf8_encode s = Some bs" and l: "int32 (int (length bs) + 1)"
    and rx: "rx st = be_bytes 4 (int (length bs) + 1) @ bs @ [0x00] @ rest"
    and len: "int (length bs) + 5 \<le> read_length st"
  shows "read_string st = (Inr s, advance (length bs + 5) rest st)"
proof -
  have a: "read_int32 st = (Inr (int (length bs) + 1), advance 4 (bs @ [0x00] @ rest) st)"
    using rx l len by (intro read_int32_adv) simp_all
  have b: "read_chunk (int (length (bs @ [0x00]))) (advance 4 (bs @ [0x00] @ rest) st)
           = (Inr (bs @ [0x00]), advance (length (bs @ [0x00])) rest (advance 4 (bs @ [0x00] @ rest) st))"
    using len by (intro read_chunk_adv) (simp_all add: advance_simps)
  have c: "read_bytes st = (Inr (bs @ [0x00]), advance (length bs + 5) rest st)"
    using a b by (simp add: read_bytes_def thn_def advance_simps add.commute)
  show ?thesis
    using c utf8_decode_encode [OF e]
    by (simp add: read_string_def thn_def ret_def)
qed

declare receive_rpc_value_frames.simps [simp del]

lemma advance_2: "advance (Suc (Suc 0)) rest st = advance 2 rest st"
  by (simp add: numeral_2_eq_2)

lemmas adv = advance_simps advance_2

lemma advance_0: "rx st = rest \<Longrightarrow> advance 0 rest st = st"
  by (auto simp: advance_def)

lemma foldr_max_le: "(foldr max xs 0 \<le> (d::nat)) = (\<forall>x \<in> set xs. x \<le> d)"
  by (induction xs) auto

lemma repeat_decode:
  assumes el: "\<And>w v st rest. w \<in> set ws \<Longrightarrow> host_value env w = Some v \<Longrightarrow>
                 rx st = encode w @ rest \<Longrightarrow> int (length (encode w)) \<le> read_length st \<Longrightarrow>
                 recv st = (Inr v, advance (length (encode w)) rest st)"
    and "those (map (host_value env) ws) = Some vs"
    and "rx st = concat (map encode ws) @ rest"
    and "int (length (concat (map encode ws))) \<le> read_length st"
  shows "repeat (length ws) recv st
         = (Inr vs, advance (length (concat (map encode ws))) rest st)"
  using assms
proof (induction ws arbitrary: vs st)
  case Nil
  then show ?case by (simp add: ret_def advance_0)
next
  case (Cons w ws)
  from Cons.prems(2) obtain v vs' where v: "host_value env w = Some v"
    and vs': "those (map (host_value env) ws) = Some vs'" and vs: "vs = v # vs'"
    by (auto split: option.splits)
  let ?mid = "advance (length (encode w)) (concat (map encode ws) @ rest) st"
  have one: "recv st = (Inr v, ?mid)"
    using Cons.prems(3,4) v by (intro Cons.prems(1)) simp_all
  have more: "repeat (length ws) recv ?mid
              = (Inr vs', advance (length (concat (map encode ws))) rest ?mid)"
    using Cons.prems(4) vs'
    by (intro Cons.IH Cons.prems(1)) (simp_all add: advance_simps)
  show ?case
    using one more vs by (simp add: thn_def ret_def advance_simps)
qed

lemma frames_step:
  "receive_rpc_value_frames env (Suc d) st
   = thn read_int8 (receive_rpc_tagged env (\<lambda>k. receive_rpc_value_frames env (d - k))) st"
  by (simp add: receive_rpc_value_frames.simps)

lemma tagged_start:
  assumes "rx st = [tag] @ payload" and "1 \<le> read_length st"
  shows "receive_rpc_value_frames env (Suc d) st
         = receive_rpc_tagged env (\<lambda>k. receive_rpc_value_frames env (d - k)) (uint tag)
             (advance 1 payload st)"
  using read_int8_adv [of st tag payload] assms by (simp add: frames_step thn_def)

lemma decode_encode:
  "well_formed w \<Longrightarrow> host_value env w = Some v \<Longrightarrow> frames_needed env w \<le> d \<Longrightarrow>
   rx st = encode w @ rest \<Longrightarrow> int (length (encode w)) \<le> read_length st \<Longrightarrow>
   receive_rpc_value_frames env (Suc d) st = (Inr v, advance (length (encode w)) rest st)"
proof (induction w arbitrary: v d st rest)
  case (WTuple ws)
  let ?body = "concat (map encode ws)"
  let ?st1 = "advance 1 ([of_nat (length ws)] @ ?body @ rest) st"
  let ?st2 = "advance 2 (?body @ rest) st"
  from WTuple.prems(2) obtain vs where vs: "those (map (host_value env) ws) = Some vs"
    and v: "v = VTuple vs" by auto
  have n: "length ws < 256" using WTuple.prems(1) by simp
  have start: "receive_rpc_value_frames env (Suc d) st
               = receive_rpc_tagged env (\<lambda>k. receive_rpc_value_frames env (d - k)) 0x74 ?st1"
    using tagged_start [of st "0x74" "[of_nat (length ws)] @ ?body @ rest" env d] WTuple.prems(4,5)
    by simp
  have len: "read_int8 ?st1 = (Inr (int (length ws)), ?st2)"
    using read_int8_adv [of ?st1 "of_nat (length ws)" "?body @ rest"] WTuple.prems(5) n
    by (simp add: adv uint_byte)
  have el: "receive_rpc_value_frames env (d - 1) s
            = (Inr x, advance (length (encode w)) r s)"
    if "w \<in> set ws" "host_value env w = Some x" "rx s = encode w @ r"
       "int (length (encode w)) \<le> read_length s" for w x s r
  proof -
    from that(1) WTuple.prems(3) have "2 + frames_needed env w \<le> d"
      by (simp add: foldr_max_le)
    then have "d - 1 = Suc (d - 2)" "frames_needed env w \<le> d - 2" by simp_all
    with WTuple.IH [OF that(1), of x "d - 2" s r] that WTuple.prems(1) show ?thesis by simp
  qed
  have "repeat (length ws) (receive_rpc_value_frames env (d - 1)) ?st2
        = (Inr vs, advance (length ?body) rest ?st2)"
    using vs WTuple.prems(5) by (intro repeat_decode el) (simp_all add: adv)
  with start len v show ?case
    by (simp add: receive_rpc_tagged_def thn_def ret_def adv)
next
  case WNone
  then show ?case
    using tagged_start [of st "0x6e" rest env d]
    by (simp add: receive_rpc_tagged_def ret_def)
next
  case (WBool b)
  let ?st1 = "advance 1 ([if b then 1 else 0] @ rest) st"
  have "read_int8 ?st1 = (Inr (if b then 1 else 0), advance 2 rest st)"
    using read_int8_adv [of ?st1 "if b then 1 else 0" rest] WBool.prems(5)
    by (simp add: adv)
  with WBool show ?case
    using tagged_start [of st "0x62" "[if b then 1 else 0] @ rest" env d]
    by (auto simp: receive_rpc_tagged_def thn_def ret_def adv)
next
  case (WInt32 i)
  let ?st1 = "advance 1 (be_bytes 4 i @ rest) st"
  have "read_int32 ?st1 = (Inr i, advance 4 rest ?st1)"
    using WInt32.prems by (intro read_int32_adv) (simp_all add: adv length_be_bytes)
  with WInt32 show ?case
    using tagged_start [of st "0x69" "be_bytes 4 i @ rest" env d]
    by (simp add: receive_rpc_tagged_def thn_def ret_def adv length_be_bytes)
next
  case (WInt64 i)
  let ?st1 = "advance 1 (be_bytes 8 i @ rest) st"
  have "read_int64 ?st1 = (Inr i, advance 8 rest ?st1)"
    using WInt64.prems by (intro read_int64_adv) (simp_all add: adv length_be_bytes)
  with WInt64 show ?case
    using tagged_start [of st "0x49" "be_bytes 8 i @ rest" env d]
    by (simp add: receive_rpc_tagged_def thn_def ret_def adv length_be_bytes)
next
  case (WFloat bs)
  let ?st1 = "advance 1 (bs @ rest) st"
  have "read_chunk (int (length bs)) ?st1 = (Inr bs, advance (length bs) rest ?st1)"
    using WFloat.prems by (intro read_chunk_adv) (simp_all add: adv)
  with WFloat show ?case
    using tagged_start [of st "0x66" "bs @ rest" env d]
    by (simp add: receive_rpc_tagged_def thn_def ret_def adv read_float64_def)
next
  case (WFraction n m)
  let ?st1 = "advance 1 (be_bytes 8 n @ be_bytes 8 m @ rest) st"
  let ?st2 = "advance 9 (be_bytes 8 m @ rest) st"
  have a: "read_int64 ?st1 = (Inr n, advance 8 (be_bytes 8 m @ rest) ?st1)"
    using WFraction.prems by (intro read_int64_adv) (simp_all add: adv length_be_bytes)
  have b: "read_int64 ?st2 = (Inr m, advance 8 rest ?st2)"
    using WFraction.prems by (intro read_int64_adv) (simp_all add: adv length_be_bytes)
  from WFraction.prems(2) have "Fraction n m = Inr v"
    by (cases "Fraction n m") (simp_all add: result_option_def)
  with WFraction a b show ?case
    using tagged_start [of st "0x46" "be_bytes 8 n @ be_bytes 8 m @ rest" env d]
    by (simp add: receive_rpc_tagged_def thn_def ret_def lift_def adv length_be_bytes)
next
  case (WStr s)
  from WStr.prems(1) obtain bs where e: "utf8_encode s = Some bs"
    and l: "int32 (int (length bs) + 1)" by (auto split: option.splits)
  let ?st1 = "advance 1 (be_bytes 4 (int (length bs) + 1) @ bs @ [0x00] @ rest) st"
  have "read_string ?st1 = (Inr s, advance (length bs + 5) rest ?st1)"
    using WStr.prems(5) e l
    by (intro read_string_adv) (simp_all add: adv length_be_bytes)
  with WStr e show ?case
    using tagged_start [of st "0x73" "be_bytes 4 (int (length bs) + 1) @ bs @ [0x00] @ rest" env d]
    by (simp add: receive_rpc_tagged_def thn_def ret_def adv length_be_bytes)
next
  case (WList ws)
  let ?body = "concat (map encode ws)"
  let ?st1 = "advance 1 (be_bytes 4 (int (length ws)) @ ?body @ rest) st"
  let ?st2 = "advance 5 (?body @ rest) st"
  let ?c = "listcomp_frames env"
  from WList.prems(2) obtain vs where vs: "those (map (host_value env) ws) = Some vs"
    and v: "v = VList vs" by auto
  have start: "receive_rpc_value_frames env (Suc d) st
               = receive_rpc_tagged env (\<lambda>k. receive_rpc_value_frames env (d - k)) 0x6c ?st1"
    using tagged_start [of st "0x6c" "be_bytes 4 (int (length ws)) @ ?body @ rest" env d]
      WList.prems(4,5)
    by simp
  have "read_int32 ?st1 = (Inr (int (length ws)), advance 4 (?body @ rest) ?st1)"
    using WList.prems(1,5)
    by (intro read_int32_adv) (simp_all add: adv length_be_bytes)
  then have len: "read_int32 ?st1 = (Inr (int (length ws)), ?st2)"
    by (simp add: adv)
  have el: "receive_rpc_value_frames env (d - ?c) s
            = (Inr x, advance (length (encode w)) r s)"
    if "w \<in> set ws" "host_value env w = Some x" "rx s = encode w @ r"
       "int (length (encode w)) \<le> read_length s" for w x s r
  proof -
    from that(1) WList.prems(3) have "Suc ?c + frames_needed env w \<le> d"
      by (simp add: foldr_max_le)
    then have "d - ?c = Suc (d - Suc ?c)" "frames_needed env w \<le> d - Suc ?c" by simp_all
    with WList.IH [OF that(1), of x "d - Suc ?c" s r] that WList.prems(1) show ?thesis by simp
  qed
  have "repeat (length ws) (receive_rpc_value_frames env (d - ?c)) ?st2
        = (Inr vs, advance (length ?body) rest ?st2)"
    using vs WList.prems(5)
    by (intro repeat_decode el) (simp_all add: adv length_be_bytes)
  with start len v show ?case
    by (simp add: receive_rpc_tagged_def thn_def ret_def adv length_be_bytes)
next
  case (WRange lower upper step)
  from WRange.prems(2) obtain l u s where l: "host_value env lower = Some l"
    and u: "host_value env upper = Some u" and s: "host_value env step = Some s"
    and r: "py_range l u s = Inr v"
    by (auto simp: result_option_def split: option.splits sum.splits)
  from WRange.prems(3) obtain d' where d: "d = Suc d'"
    and fl: "frames_needed env lower \<le> d'" and fu: "frames_needed env upper \<le> d'"
    and fs: "frames_needed env step \<le> d'"
    by (cases d) auto
  let ?st1 = "advance 1 (encode lower @ encode upper @ encode step @ rest) st"
  let ?st2 = "advance (length (encode lower)) (encode upper @ encode step @ rest) ?st1"
  let ?st3 = "advance (length (encode upper)) (encode step @ rest) ?st2"
  have a: "receive_rpc_value_frames env (Suc d') ?st1 = (Inr l, ?st2)"
    using WRange.prems(1,5) l fl
    by (intro WRange.IH(1)) (simp_all add: adv)
  have b: "receive_rpc_value_frames env (Suc d') ?st2 = (Inr u, ?st3)"
    using WRange.prems(1,5) u fu
    by (intro WRange.IH(2)) (simp_all add: adv)
  have c: "receive_rpc_value_frames env (Suc d') ?st3
           = (Inr s, advance (length (encode step)) rest ?st3)"
    using WRange.prems(1,5) s fs
    by (intro WRange.IH(3)) (simp_all add: adv)
  have "receive_rpc_value_frames env (Suc d) st
        = receive_rpc_tagged env (\<lambda>k. receive_rpc_value_frames env (d - k)) 0x72 ?st1"
    using tagged_start [of st "0x72" "encode lower @ encode upper @ encode step @ rest" env d]
      WRange.prems(4,5)
    by simp
  with a b c r d show ?case
    by (simp add: receive_rpc_tagged_def thn_def ret_def lift_def adv add.assoc)
next
  case (WObj i)
  let ?st1 = "advance 1 (be_bytes 4 i @ rest) st"
  have "read_int32 ?st1 = (Inr i, advance 4 rest ?st1)"
    using WObj.prems by (intro read_int32_adv) (simp_all add: adv length_be_bytes)
  with WObj show ?case
    using tagged_start [of st "0x6f" "be_bytes 4 i @ rest" env d]
    by (auto simp: receive_rpc_tagged_def thn_def ret_def adv length_be_bytes)
qed

subsection \<open>Argument lists\<close>

lemma host_value_not_sentinel: "host_value env w = Some v \<Longrightarrow> v \<noteq> Sentinel"
  by (cases w)
     (auto simp: result_option_def Fraction_def py_range_def Let_def
           split: option.splits sum.splits if_splits rpc_value.splits)

lemma receive_rpc_value_sentinel:
  assumes "rx st = 0x00 # rest" and "1 \<le> read_length st"
  shows "receive_rpc_value env st = (Inr Sentinel, advance 1 rest st)"
  using receive_rpc_value_tag [OF assms, of env]
  by (simp add: receive_rpc_tagged_def ret_def advance_def)

lemma receive_rpc_args_loop_encoded:
  assumes "\<forall>w \<in> set ws. well_formed w \<and> frames_needed env w \<le> nesting_room env"
    and "those (map (host_value env) ws) = Some vs"
    and "rx st = concat (map encode ws) @ [0x00] @ rest"
    and "int (length (concat (map encode ws))) + 1 \<le> read_length st"
  shows "receive_rpc_args_loop env args st
         = (Inr (args @ vs), advance (length (concat (map encode ws)) + 1) rest st)"
  using assms
proof (induction ws arbitrary: vs st args)
  case Nil
  then show ?case
    using receive_rpc_value_sentinel [of st rest env]
    by (simp add: receive_rpc_args_loop.simps [of env args st])
next
  case (Cons w ws)
  from Cons.prems(2) obtain v vs' where v: "host_value env w = Some v"
    and vs': "those (map (host_value env) ws) = Some vs'" and vs: "vs = v # vs'"
    by (auto split: option.splits)
  let ?mid = "advance (length (encode w)) (concat (map encode ws) @ [0x00] @ rest) st"
  have one: "receive_rpc_value env st = (Inr v, ?mid)"
    unfolding receive_rpc_value_def
    using Cons.prems(1,3,4) v by (intro decode_encode) simp_all
  have more: "receive_rpc_args_loop env (args @ [v]) ?mid
              = (Inr ((args @ [v]) @ vs'),
                 advance (length (concat (map encode ws)) + 1) rest ?mid)"
    using Cons.prems(1,4) vs' by (intro Cons.IH) (simp_all add: advance_simps)
  show ?case
    using one more vs host_value_not_sentinel [OF v]
    by (simp add: receive_rpc_args_loop.simps [of env args st] advance_simps add.assoc)
qed

lemma receive_rpc_args_loop_no_sentinel:
  "receive_rpc_args_loop env args st = (Inr vs, st') \<Longrightarrow> Sentinel \<notin> set args \<Longrightarrow>
   Sentinel \<notin> set vs"
proof (induction env args st rule: receive_rpc_args_loop.induct)
  case (1 env args st)
  obtain r st1 where r: "receive_rpc_value env st = (r, st1)"
    by (cases "receive_rpc_value env st")
  show ?case
  proof (cases r)
    case (Inl e)
    with r "1.prems" show ?thesis by (simp add: receive_rpc_args_loop.simps [of env args st])
  next
    case (Inr v)
    show ?thesis
    proof (cases "v = Sentinel")
      case True
      with Inr r "1.prems" show ?thesis
        by (simp add: receive_rpc_args_loop.simps [of env args st])
    next
      case False
      with Inr r "1.prems" have "receive_rpc_args_loop env (args @ [v]) st1 = (Inr vs, st')"
        by (simp add: receive_rpc_args_loop.simps [of env args st])
      moreover from False "1.prems" have "Sentinel \<notin> set (args @ [v])" by simp
      ultimately show ?thesis
        using "1.IH" [OF r [symmetric, unfolded Inr] refl False] by blast
    qed
  qed
qed

lemma well_formed_deep: "well_formed (deep n)"
  by (induction n) simp_all

lemma deep_overflow:
  "d < 2 * n \<Longrightarrow> rx st = encode (deep n) @ rest \<Longrightarrow> 2 * int n + 1 \<le> read_length st \<Longrightarrow>
   fst (receive_rpc_value_frames env (Suc d) st) = Inl RecursionError"
proof (induction n arbitrary: d st)
  case 0
  then show ?case by simp
next
  case (Suc n)
  let ?st1 = "advance 1 ([1] @ encode (deep n) @ rest) st"
  let ?st2 = "advance 2 (encode (deep n) @ rest) st"
  have start: "receive_rpc_value_frames env (Suc d) st
               = receive_rpc_tagged env (\<lambda>k. receive_rpc_value_frames env (d - k)) 0x74 ?st1"
    using tagged_start [of st "0x74" "[1] @ encode (deep n) @ rest" env d] Suc.prems(2,3)
    by simp
  have len: "read_int8 ?st1 = (Inr 1, ?st2)"
    using read_int8_adv [of ?st1 1 "encode (deep n) @ rest"] Suc.prems(3)
    by (simp add: adv)
  have "fst (receive_rpc_value_frames env (d - 1) ?st2) = Inl RecursionError"
  proof (cases "d - 1")
    case 0
    then show ?thesis by (simp add: receive_rpc_value_frames.simps raise_def)
  next
    case (Suc d')
    with Suc.prems(1) have "d' < 2 * n" by simp
    with Suc.IH [of d' ?st2] Suc.prems(3) \<open>d - 1 = Suc d'\<close> show ?thesis
      by (simp add: adv)
  qed
  then obtain st3 where "receive_rpc_value_frames env (d - 1) ?st2 = (Inl RecursionError, st3)"
    by (cases "receive_rpc_value_frames env (d - 1) ?st2") simp
  with start len show ?case
    by (simp add: receive_rpc_tagged_def thn_def ret_def)
qed

lemma encode_deep: "encode (deep n) = concat (replicate n [0x74, 0x01]) @ [0x6e]"
  by (induction n) simp_all

lemma receive_rpc_args_deep:
  assumes "nesting_room env < 2 * n"
  shows "fst (receive_rpc_args env
                ((init (concat (replicate n [0x74, 0x01]) @ [0x6e, 0x00]))
                   \<lparr>read_length := 2 * int n + 2\<rparr>))
         = Inl RecursionError"
proof -
  let ?st = "(init (concat (replicate n [0x74, 0x01]) @ [0x6e, 0x00]))
               \<lparr>read_length := 2 * int n + 2\<rparr>"
  have "fst (receive_rpc_value env ?st) = Inl RecursionError"
    unfolding receive_rpc_value_def
    using assms by (intro deep_overflow [where n = n and rest = "[0x00]"])
                   (simp_all add: encode_deep init_def)
  then obtain st' where "receive_rpc_value env ?st = (Inl RecursionError, st')"
    by (cases "receive_rpc_value env ?st") simp
  then show ?thesis
    by (simp add: receive_rpc_args_def receive_rpc_args_loop.simps [of env "[]" ?st])
qed

lemma be_bytes_4_42: "be_bytes 4 42 = [0, 0, 0, 42]"
  by code_simp

text \<open>
  Claim C8, as amended. When the body holds the encodings of values that stand for
  Python values (a rational has a nonzero denominator and is returned in lowest
  terms, a range is built from integers with a nonzero step, an object reference is
  in the RPC map) and nest no deeper than the interpreter's stack has room for, then
  the tag byte 0, \<^verbatim>\<open>_receive_rpc_args\<close> returns exactly their Python values, in
  order, having read up to and including that byte; whatever it returns does not
  hold the sentinel; and the body \<^verbatim>\<open>'i'\<close>, int32 42, tag 0 gives the one argument 42.
\<close>

theorem receive_rpc_args_round_trip:
  "((\<forall>w \<in> set ws. well_formed w \<and> frames_needed env w \<le> nesting_room env)
      \<and> those (map (host_value env) ws) = Some vs
      \<and> rx st = concat (map encode ws) @ [0x00] @ rest
      \<and> int (length (concat (map encode ws))) + 1 \<le> read_length st \<longrightarrow>
    receive_rpc_args env st
    = (Inr vs, st\<lparr>read_length := read_length st - (int (length (concat (map encode ws))) + 1),
                  rx := rest\<rparr>))
   \<and> (receive_rpc_args env st = (Inr vs, st') \<longrightarrow> Sentinel \<notin> set vs)
   \<and> receive_rpc_args env ((init [0x69, 0, 0, 0, 42, 0x00])\<lparr>read_length := 6\<rparr>)
     = (Inr [VInt 42], (init [])\<lparr>read_length := 0\<rparr>)"
proof (intro conjI impI)
  assume "(\<forall>w \<in> set ws. well_formed w \<and> frames_needed env w \<le> nesting_room env)
      \<and> those (map (host_value env) ws) = Some vs
      \<and> rx st = concat (map encode ws) @ [0x00] @ rest
      \<and> int (length (concat (map encode ws))) + 1 \<le> read_length st"
  then show "receive_rpc_args env st
    = (Inr vs, st\<lparr>read_length := read_length st - (int (length (concat (map encode ws))) + 1),
                  rx := rest\<rparr>)"
    using receive_rpc_args_loop_encoded [of ws env vs st rest "[]"]
    by (simp add: receive_rpc_args_def advance_def)
next
  assume "receive_rpc_args env st = (Inr vs, st')"
  then show "Sentinel \<notin> set vs"
    using receive_rpc_args_loop_no_sentinel [of env "[]" st vs st']
    by (simp add: receive_rpc_args_def)
next
  let ?st = "(init [0x69, 0, 0, 0, 42, 0x00])\<lparr>read_length := 6\<rparr>"
  have "int32 42" by (simp add: int32_def)
  moreover have "be_bytes 4 42 = [0, 0, 0, 42]" by code_simp
  ultimately show "receive_rpc_args env ?st = (Inr [VInt 42], (init [])\<lparr>read_length := 0\<rparr>)"
    using receive_rpc_args_loop_encoded [of "[WInt32 42]" env "[VInt 42]" ?st "[]" "[]"]
    by (simp add: receive_rpc_args_def advance_def init_def)
qed

text \<open>
  The arguments 42 and \<^verbatim>\<open>(None, True)\<close> are returned, and the byte after the
  sentinel is left.
\<close>

theorem receive_rpc_args_round_trip_witness:
  "receive_rpc_args no_services two_args
   = (Inr [VInt 42, VTuple [VNone, VBool True]], (init [0xff])\<lparr>read_length := 0\<rparr>)
   \<and> Sentinel \<notin> set [VInt 42, VTuple [VNone, VBool True]]"
proof -
  have a: "receive_rpc_args no_services two_args
           = (Inr [VInt 42, VTuple [VNone, VBool True]], (init [0xff])\<lparr>read_length := 0\<rparr>)"
    using receive_rpc_args_round_trip [where env = no_services
            and ws = "[WInt32 42, WTuple [WNone, WBool True]]"
            and vs = "[VInt 42, VTuple [VNone, VBool True]]"
            and st = two_args and rest = "[0xff]"]
    by (simp add: two_args_def no_services_def init_def int32_def be_bytes_4_42)
  with receive_rpc_args_round_trip [where env = no_services and st = two_args
            and vs = "[VInt 42, VTuple [VNone, VBool True]]"
            and st' = "(init [0xff])\<lparr>read_length := 0\<rparr>"]
  show ?thesis by blast
qed

lemma receive_rpc_args_deep_500:
  "fst (receive_rpc_args no_services
          ((init (concat (replicate 500 [0x74, 0x01]) @ [0x6e, 0x00]))\<lparr>read_length := 1002\<rparr>))
   = Inl RecursionError"
  using receive_rpc_args_deep [of no_services 500] by (simp add: no_services_def)

lemma receive_rpc_args_unbuildable:
  "fst (receive_rpc_args no_services
          ((init [0x46, 0, 0, 0, 0, 0, 0, 0, 1, 0, 0, 0, 0, 0, 0, 0, 0, 0x00])
             \<lparr>read_length := 18\<rparr>))
     = Inl ZeroDivisionError
   \<and> fst (receive_rpc_args no_services
          ((init [0x46, 0, 0, 0, 0, 0, 0, 0, 2, 0, 0, 0, 0, 0, 0, 0, 4, 0x00])
             \<lparr>read_length := 18\<rparr>))
     = Inr [VFraction 1 2]
   \<and> fst (receive_rpc_args no_services
          ((init [0x72, 0x69, 0, 0, 0, 0, 0x69, 0, 0, 0, 1, 0x69, 0, 0, 0, 0, 0x00])
             \<lparr>read_length := 17\<rparr>))
     = Inl ValueError_range_step
   \<and> fst (receive_rpc_args no_services
          ((init [0x6f, 0, 0, 0, 7, 0x00])\<lparr>read_length := 6\<rparr>))
     = Inl (KeyError 7)"
  by code_simp

text \<open>
  Claim C8 as stated fails: before the sentinel, \<^verbatim>\<open>None\<close> inside 500 tuples,
  which has an encoding of 1001 bytes, raises \<^verbatim>\<open>RecursionError\<close>, the rational
  (1, 0) raises \<^verbatim>\<open>ZeroDivisionError\<close>, the rational (2, 4) is returned as 1/2, the
  range from 0 to 1 by 0 raises \<^verbatim>\<open>ValueError\<close>, and the reference 7 to an object
  the RPC map does not have raises \<^verbatim>\<open>KeyError\<close>.
\<close>

theorem receive_rpc_args_fails:
  "well_formed (deep 500)
   \<and> encode (deep 500) = concat (replicate 500 [0x74, 0x01]) @ [0x6e]
   \<and> fst (receive_rpc_args no_services
          ((init (concat (replicate 500 [0x74, 0x01]) @ [0x6e, 0x00]))\<lparr>read_length := 1002\<rparr>))
     = Inl RecursionError
   \<and> fst (receive_rpc_args no_services
          ((init [0x46, 0, 0, 0, 0, 0, 0, 0, 1, 0, 0, 0, 0, 0, 0, 0, 0, 0x00])
             \<lparr>read_length := 18\<rparr>))
     = Inl ZeroDivisionError
   \<and> fst (receive_rpc_args no_services
          ((init [0x46, 0, 0, 0, 0, 0, 0, 0, 2, 0, 0, 0, 0, 0, 0, 0, 4, 0x00])
             \<lparr>read_length := 18\<rparr>))
     = Inr [VFraction 1 2]
   \<and> fst (receive_rpc_args no_services
          ((init [0x72, 0x69, 0, 0, 0, 0, 0x69, 0, 0, 0, 1, 0x69, 0, 0, 0, 0, 0x00])
             \<lparr>read_length := 17\<rparr>))
     = Inl ValueError_range_step
   \<and> fst (receive_rpc_args no_services
          ((init [0x6f, 0, 0, 0, 7, 0x00])\<lparr>read_length := 6\<rparr>))
     = Inl (KeyError 7)"
  using well_formed_deep [of 500] encode_deep [of 500]
    receive_rpc_args_deep_500 receive_rpc_args_unbuildable
  by simp

section \<open>The serve loop\<close>

subsection \<open>How the loop ends\<close>

lemma serve_finished:
  "serve env st = (Inr u, st') \<Longrightarrow>
   read_type st' = Some KERNEL_FINISHED \<and> (\<exists>s. read_header s = (Inr (), st'))"
proof (induction env st rule: serve.induct)
  case (1 env st)
  obtain r mid where r: "read_header st = (r, mid)" by (cases "read_header st")
  show ?case
  proof (cases r)
    case (Inl e)
    with r "1.prems" show ?thesis by (simp add: serve.simps [of env st])
  next
    case (Inr x)
    consider (rpc) "read_type mid = Some RPC_REQUEST"
      | (exn) "read_type mid \<noteq> Some RPC_REQUEST" "read_type mid = Some KERNEL_EXCEPTION"
      | (fin) "read_type mid \<noteq> Some RPC_REQUEST" "read_type mid \<noteq> Some KERNEL_EXCEPTION"
      by blast
    then show ?thesis
    proof cases
      case rpc
      obtain r2 st2 where r2: "serve_rpc env mid = (r2, st2)" by (cases "serve_rpc env mid")
      show ?thesis
      proof (cases r2)
        case (Inl e)
        with r Inr rpc r2 "1.prems" show ?thesis by (simp add: serve.simps [of env st])
      next
        case Inr2: (Inr y)
        with r Inr rpc r2 "1.prems" have "serve env st2 = (Inr u, st')"
          by (simp add: serve.simps [of env st])
        with "1.IH"(1) [OF r [symmetric, unfolded Inr] refl rpc r2 [symmetric, unfolded Inr2] refl]
        show ?thesis by blast
      qed
    next
      case exn
      obtain r2 st2 where r2: "serve_exception mid = (r2, st2)" by (cases "serve_exception mid")
      show ?thesis
      proof (cases r2)
        case (Inl e)
        with r Inr exn r2 "1.prems" show ?thesis by (simp add: serve.simps [of env st])
      next
        case Inr2: (Inr y)
        with r Inr exn r2 "1.prems" have "serve env st2 = (Inr u, st')"
          by (simp add: serve.simps [of env st])
        with "1.IH"(2) [OF r [symmetric, unfolded Inr] refl exn r2 [symmetric, unfolded Inr2] refl]
        show ?thesis by blast
      qed
    next
      case fin
      with r Inr "1.prems" have e: "read_expect KERNEL_FINISHED mid = (Inr u, st')"
        by (simp add: serve.simps [of env st])
      then have "st' = mid" "read_type mid = Some KERNEL_FINISHED"
        by (auto simp: read_expect_def split: if_splits)
      with r Inr show ?thesis by auto
    qed
  qed
qed

lemma serve_other_kind:
  assumes "read_header st = (Inr (), mid)"
    and "read_type mid \<noteq> Some RPC_REQUEST" and "read_type mid \<noteq> Some KERNEL_EXCEPTION"
  shows "serve env st = read_expect KERNEL_FINISHED mid"
  using assms by (simp add: serve.simps [of env st])

lemma read_header_finished_frame:
  "read_header (init [0x5a, 0x5a, 0x5a, 0x5a, 0, 0, 0, 9, 7])
   = (Inr (), (init [])\<lparr>read_type := Some KERNEL_FINISHED\<rparr>)"
  by code_simp

text \<open>
  Claim C9. When \<^verbatim>\<open>serve\<close> returns, the last thing it did was to read a
  \<^verbatim>\<open>KERNEL_FINISHED\<close> header; a header of a kind other than
  \<^verbatim>\<open>RPC_REQUEST\<close>, \<^verbatim>\<open>KERNEL_EXCEPTION\<close> and \<^verbatim>\<open>KERNEL_FINISHED\<close> makes it
  raise the error of \<^verbatim>\<open>_read_expect\<close>; and fed one \<^verbatim>\<open>KERNEL_FINISHED\<close>
  frame it returns without a call of \<^verbatim>\<open>write\<close>.
\<close>

theorem serve_terminal:
  "(serve env st = (Inr (), st') \<longrightarrow>
      read_type st' = Some KERNEL_FINISHED \<and> (\<exists>s. read_header s = (Inr (), st')))
   \<and> (read_header st = (Inr (), mid) \<and> read_type mid = Some k
        \<and> k \<noteq> RPC_REQUEST \<and> k \<noteq> KERNEL_EXCEPTION \<and> k \<noteq> KERNEL_FINISHED \<longrightarrow>
        serve env st = (Inl (IOError_incorrect_reply (Some k) KERNEL_FINISHED), mid))
   \<and> (read_header st = (Inr (), mid) \<and> read_type mid = Some KERNEL_FINISHED \<longrightarrow>
        serve env st = (Inr (), mid))
   \<and> serve env (init [0x5a, 0x5a, 0x5a, 0x5a, 0, 0, 0, 9, 7])
     = (Inr (), (init [])\<lparr>read_type := Some KERNEL_FINISHED\<rparr>)
   \<and> tx (snd (serve env (init [0x5a, 0x5a, 0x5a, 0x5a, 0, 0, 0, 9, 7]))) = []"
proof -
  have fin: "serve env (init [0x5a, 0x5a, 0x5a, 0x5a, 0, 0, 0, 9, 7])
             = (Inr (), (init [])\<lparr>read_type := Some KERNEL_FINISHED\<rparr>)"
    using serve_other_kind [OF read_header_finished_frame, of env]
    by (simp add: read_expect_def)
  show ?thesis
  proof (intro conjI impI)
    assume "serve env st = (Inr (), st')"
    then show "read_type st' = Some KERNEL_FINISHED" "\<exists>s. read_header s = (Inr (), st')"
      by (auto dest: serve_finished)
  next
    assume a: "read_header st = (Inr (), mid) \<and> read_type mid = Some k
        \<and> k \<noteq> RPC_REQUEST \<and> k \<noteq> KERNEL_EXCEPTION \<and> k \<noteq> KERNEL_FINISHED"
    then show "serve env st = (Inl (IOError_incorrect_reply (Some k) KERNEL_FINISHED), mid)"
      using serve_other_kind [of st mid env] by (simp add: read_expect_def)
  next
    assume "read_header st = (Inr (), mid) \<and> read_type mid = Some KERNEL_FINISHED"
    then show "serve env st = (Inr (), mid)"
      using serve_other_kind [of st mid env] by (simp add: read_expect_def)
  next
    show "serve env (init [0x5a, 0x5a, 0x5a, 0x5a, 0, 0, 0, 9, 7])
          = (Inr (), (init [])\<lparr>read_type := Some KERNEL_FINISHED\<rparr>)"
      by (rule fin)
    show "tx (snd (serve env (init [0x5a, 0x5a, 0x5a, 0x5a, 0, 0, 0, 9, 7]))) = []"
      by (subst fin) (simp add: init_def)
  qed
qed

lemma read_header_log_reply_frame:
  "read_header (init [0x5a, 0x5a, 0x5a, 0x5a, 0, 0, 0, 9, 1])
   = (Inr (), (init [])\<lparr>read_type := Some LOG_REPLY\<rparr>)"
  by code_simp

theorem serve_terminal_witness:
  "read_type ((init [])\<lparr>read_type := Some KERNEL_FINISHED\<rparr>) = Some KERNEL_FINISHED
   \<and> (\<exists>s. read_header s = (Inr (), (init [])\<lparr>read_type := Some KERNEL_FINISHED\<rparr>))
   \<and> serve no_services (init [0x5a, 0x5a, 0x5a, 0x5a, 0, 0, 0, 9, 1])
     = (Inl (IOError_incorrect_reply (Some LOG_REPLY) KERNEL_FINISHED),
        (init [])\<lparr>read_type := Some LOG_REPLY\<rparr>)
   \<and> serve no_services (init [0x5a, 0x5a, 0x5a, 0x5a, 0, 0, 0, 9, 7])
     = (Inr (), (init [])\<lparr>read_type := Some KERNEL_FINISHED\<rparr>)"
  using serve_terminal [where env = no_services
          and st = "init [0x5a, 0x5a, 0x5a, 0x5a, 0, 0, 0, 9, 7]"
          and st' = "(init [])\<lparr>read_type := Some KERNEL_FINISHED\<rparr>"
          and mid = "(init [])\<lparr>read_type := Some KERNEL_FINISHED\<rparr>" and k = LOG_REPLY]
        serve_terminal [where env = no_services
          and st = "init [0x5a, 0x5a, 0x5a, 0x5a, 0, 0, 0, 9, 1]"
          and mid = "(init [])\<lparr>read_type := Some LOG_REPLY\<rparr>" and k = LOG_REPLY]
        read_header_log_reply_frame read_header_finished_frame
  by simp

subsection \<open>The result of an RPC\<close>

text \<open>
  Claim C1 against the code. The check of line 332 lets an integer result through
  exactly when it lies strictly between \<open>-2\<^sup>3\<^sup>1\<close> and \<open>2\<^sup>3\<^sup>1 - 1\<close>, and no result
  that is not an integer: the result
  \<open>2\<^sup>3\<^sup>1 - 1\<close>, which \<^verbatim>\<open>struct.pack(">l", ...)\<close> encodes, raises the
  \<^verbatim>\<open>ValueError\<close>, and \<^verbatim>\<open>_serve_rpc\<close> sends no \<^verbatim>\<open>RPC_REPLY\<close> for it, as
  it does for \<open>2\<^sup>3\<^sup>1 - 2\<close>.
\<close>

theorem rpc_result_range:
  "rpc_try (returning (RInt r)) 3 args
     = (if - (2 ^ 31) < r \<and> r < 2 ^ 31 - 1 then Inr (RInt r)
        else Inl (rpc_value_error (returning (RInt r))))
   \<and> rpc_try (returning (RInt (2 ^ 31 - 1))) 3 args
     = Inl (rpc_value_error (returning (RInt (2 ^ 31 - 1))))
   \<and> rpc_try (returning RNonInt) 3 args = Inl (rpc_value_error (returning RNonInt))
   \<and> pack_l (2 ^ 31 - 1) = Inr [0x7f, 0xff, 0xff, 0xff]
   \<and> fst (serve_rpc (returning (RInt (2 ^ 31 - 1))) request3) \<noteq> Inr ()
   \<and> tx (snd (serve_rpc (returning (RInt (2 ^ 31 - 1))) request3)) = []
   \<and> tx (snd (serve_rpc (returning (RInt (2 ^ 31 - 2))) request3))
     = [[0x5a, 0x5a, 0x5a, 0x5a, 0, 0, 0, 13, 6], [0x7f, 0xff, 0xff, 0xfe]]"
proof (intro conjI)
  show "rpc_try (returning (RInt r)) 3 args
     = (if - (2 ^ 31) < r \<and> r < 2 ^ 31 - 1 then Inr (RInt r)
        else Inl (rpc_value_error (returning (RInt r))))"
    by (simp add: rpc_try_def returning_def rpc_value_error_def isinstance_int_def int_of_def)
  show "rpc_try (returning (RInt (2 ^ 31 - 1))) 3 args
     = Inl (rpc_value_error (returning (RInt (2 ^ 31 - 1))))"
    by (simp add: rpc_try_def returning_def rpc_value_error_def isinstance_int_def int_of_def)
  show "rpc_try (returning RNonInt) 3 args = Inl (rpc_value_error (returning RNonInt))"
    by (simp add: rpc_try_def returning_def rpc_value_error_def isinstance_int_def)
  show "pack_l (2 ^ 31 - 1) = Inr [0x7f, 0xff, 0xff, 0xff]"
    by code_simp
  show "fst (serve_rpc (returning (RInt (2 ^ 31 - 1))) request3) \<noteq> Inr ()"
    by code_simp
  show "tx (snd (serve_rpc (returning (RInt (2 ^ 31 - 1))) request3)) = []"
    by code_simp
  show "tx (snd (serve_rpc (returning (RInt (2 ^ 31 - 2))) request3))
     = [[0x5a, 0x5a, 0x5a, 0x5a, 0, 0, 0, 13, 6], [0x7f, 0xff, 0xff, 0xfe]]"
    by code_simp
qed

theorem rpc_result_range_witness:
  "rpc_try (returning (RInt 7)) 3 [] = Inr (RInt 7)
   \<and> rpc_try (returning (RInt (- (2 ^ 31)))) 3 []
     = Inl (rpc_value_error (returning (RInt (- (2 ^ 31)))))
   \<and> rpc_try (returning (RInt (2 ^ 31))) 3 [] = Inl (rpc_value_error (returning (RInt (2 ^ 31))))
   \<and> rpc_try (returning (RInt (2 ^ 31 - 1))) 3 []
     = Inl (rpc_value_error (returning (RInt (2 ^ 31 - 1))))"
  using rpc_result_range [where r = 7 and args = "[]"]
        rpc_result_range [where r = "- (2 ^ 31)" and args = "[]"]
        rpc_result_range [where r = "2 ^ 31" and args = "[]"]
  by simp

subsection \<open>A callable that fails\<close>

text \<open>
  Claim C2 against the code. A \<^verbatim>\<open>RuntimeError\<close> raised inside a Python function
  that serves an RPC leaves \<^verbatim>\<open>serve\<close> as a \<^verbatim>\<open>NameError\<close>: the first
  \<^verbatim>\<open>except\<close> clause names \<^verbatim>\<open>ARTIQException\<close>, which the module does not bind.
  Nothing is written and the next header is not read. The handler for
  \<^verbatim>\<open>Exception\<close> would fail on this exception as well, at the assignment that
  takes a traceback of one entry, before it flushes. On a traceback of one entry it
  sends the reply, with three zero parameters and the column -1.
\<close>

theorem serve_callable_failure_propagates:
  "rpc_try (raising ping_failure) 3 []
     = Inl (ping_failure\<lparr>exc_tb := [serve_rpc_frame (raising ping_failure) 331,
                                      (py ''service.py'', 12, py ''ping'')]\<rparr>)
   \<and> fst (serve (raising ping_failure) (init request3_then_finished))
     = Inl (NameError ''ARTIQException'')
   \<and> tx (snd (serve (raising ping_failure) (init request3_then_finished))) = []
   \<and> rx (snd (serve (raising ping_failure) (init request3_then_finished)))
     = [0x5a, 0x5a, 0x5a, 0x5a, 0, 0, 0, 9, 7]
   \<and> fst (except_exception
            (ping_failure\<lparr>exc_tb := [serve_rpc_frame (raising ping_failure) 331,
                                     (py ''service.py'', 12, py ''ping'')]\<rparr>) request3)
     = Inl (ValueError_unpack 2)
   \<and> tx (snd (except_exception
            (ping_failure\<lparr>exc_tb := [serve_rpc_frame (raising ping_failure) 331,
                                     (py ''service.py'', 12, py ''ping'')]\<rparr>) request3)) = []
   \<and> except_exception
        \<lparr>exc_class = OtherException, exc_type_name = py ''E'', exc_str = py [],
         exc_tb = [(py ''f'', 7, py ''g'')]\<rparr> (init [])
     = (Inr (),
        (init [])\<lparr>write_type := Some RPC_EXCEPTION,
          write_buffer :=
            [[0, 0, 0, 2], [0x45, 0], [0, 0, 0, 1], [0],
             [0, 0, 0, 0, 0, 0, 0, 0], [0, 0, 0, 0, 0, 0, 0, 0], [0, 0, 0, 0, 0, 0, 0, 0],
             [0, 0, 0, 2], [0x66, 0], [0, 0, 0, 7], [0xff, 0xff, 0xff, 0xff],
             [0, 0, 0, 2], [0x67, 0]],
          tx :=
            [[0x5a, 0x5a, 0x5a, 0x5a, 0, 0, 0, 64, 7],
             [0, 0, 0, 2], [0x45, 0], [0, 0, 0, 1], [0],
             [0, 0, 0, 0, 0, 0, 0, 0], [0, 0, 0, 0, 0, 0, 0, 0], [0, 0, 0, 0, 0, 0, 0, 0],
             [0, 0, 0, 2], [0x66, 0], [0, 0, 0, 7], [0xff, 0xff, 0xff, 0xff],
             [0, 0, 0, 2], [0x67, 0]]\<rparr>)"
  by (intro conjI; code_simp)

theorem serve_callable_failure_propagates_witness:
  "fst (serve (raising ping_failure) (init request3_then_finished))
     = Inl (NameError ''ARTIQException'')
   \<and> tx (snd (serve (raising ping_failure) (init request3_then_finished))) = []"
  using serve_callable_failure_propagates by blast

end
